theory Spec2Isabelle
  imports Complex_Main "HOL-Library.Sublist" "HOL-Library.Multiset"
begin

section \<open>Data model\<close>

text \<open>
  The optimisation passes of \<^verbatim>\<open>vm/optimize.go\<close> work on the position stack of a
  \<^verbatim>\<open>Machine\<close>. The declarations of \<^verbatim>\<open>Machine\<close>, \<^verbatim>\<open>Position\<close>, \<^verbatim>\<open>State\<close> and of
  the move mode constants live in another file of the package; the passes only use the
  fields modelled below.

  A \<^verbatim>\<open>float64\<close> coordinate, feedrate or height is modelled by a \<^typ>\<open>real\<close>: the values
  are taken to be finite, and comparing and copying them is exact. Arithmetic that rounds
  is not computed in \<^typ>\<open>real\<close> where a claim depends on its result: the product of
  \<^verbatim>\<open>FeedrateMultiplier\<close> and the unit vector of \<^verbatim>\<open>OptBogusMoves\<close>, with its equality
  test, are parameters of the model, and nothing is assumed about them. The distance
  \<^verbatim>\<open>diffFromCur\<close> and the tolerance test of route grouping, which only pick the visiting
  order and the shape of a travel segment, are computed in \<^typ>\<open>real\<close>.
\<close>

text \<open>
  Modelled from the spec: the move mode enumeration (declared outside
  \<^verbatim>\<open>optimize.go\<close>). The passes compare a mode only with \<^verbatim>\<open>moveModeRapid\<close> and
  \<^verbatim>\<open>moveModeLinear\<close>; every other mode (arcs, none) is an opaque \<open>moveModeOther n\<close>,
  with \<open>n\<close> telling these modes apart.
\<close>

datatype MoveMode = moveModeRapid | moveModeLinear | moveModeOther nat

text \<open>
  Modelled from the spec: the machine state carried by every position (declared outside
  \<^verbatim>\<open>optimize.go\<close>), with the fields the passes read or write.
\<close>

record State =
  feedrate :: real
  spindleSpeed :: real
  moveMode :: MoveMode
  spindleEnabled :: bool
  spindleClockwise :: bool

text \<open>
  Modelled from the spec: a position of the stack (declared outside \<^verbatim>\<open>optimize.go\<close>).
  The coordinate fields \<^verbatim>\<open>x\<close>, \<^verbatim>\<open>y\<close>, \<^verbatim>\<open>z\<close> are named \<open>px\<close>, \<open>py\<close>, \<open>pz\<close>, so that
  the single letters stay available as variables.
\<close>

record Position =
  state :: State
  px :: real
  py :: real
  pz :: real

text \<open>
  Modelled from the spec: the machine context (declared outside \<^verbatim>\<open>optimize.go\<close>): the
  position stack and the tolerance used by route grouping.
\<close>

record Machine =
  posStack :: "Position list"
  tolerance :: real

text \<open>
  Panics and error returns of the passes. \<open>IndexOutOfRange\<close> is the Go runtime panic of
  an index expression outside its slice.
\<close>

datatype error =
    GeometryViolation
  | AmbiguousFeedrate
  | SafetyHeightUndetected
  | DrillFeedrateUndetected
  | UnterminatedSequence
  | SafetyHeightConflict real
  | IndexOutOfRange

section \<open>Feed and spindle normalisation\<close>

text \<open>
  \<^verbatim>\<open>LimitFeedrate\<close>, \<^verbatim>\<open>FeedrateMultiplier\<close> and \<^verbatim>\<open>EnforceSpindle\<close> visit every index of
  the stack and update the record there.
\<close>

definition limitOne :: "real \<Rightarrow> Position \<Rightarrow> Position" where
  "limitOne feed m =
     (if feedrate (state m) > feed then m\<lparr>state := (state m)\<lparr>feedrate := feed\<rparr>\<rparr> else m)"

definition LimitFeedrate :: "real \<Rightarrow> Machine \<Rightarrow> Machine" where
  "LimitFeedrate feed vm = vm\<lparr>posStack := map (limitOne feed) (posStack vm)\<rparr>"

text \<open>
  The \<^verbatim>\<open>float64\<close> product of \<^verbatim>\<open>feedrate *= feedMultiplier\<close> is the parameter \<open>fmul\<close>:
  it rounds, underflows and overflows as the machine does, and the model assumes nothing
  about it.
\<close>

definition multiplyOne :: "(real \<Rightarrow> real \<Rightarrow> real) \<Rightarrow> real \<Rightarrow> Position \<Rightarrow> Position" where
  "multiplyOne fmul feedMultiplier m =
     m\<lparr>state := (state m)\<lparr>feedrate := fmul (feedrate (state m)) feedMultiplier\<rparr>\<rparr>"

definition FeedrateMultiplier ::
  "(real \<Rightarrow> real \<Rightarrow> real) \<Rightarrow> real \<Rightarrow> Machine \<Rightarrow> Machine" where
  "FeedrateMultiplier fmul feedMultiplier vm =
     vm\<lparr>posStack := map (multiplyOne fmul feedMultiplier) (posStack vm)\<rparr>"

text \<open>
  The product without rounding. It is the \<^verbatim>\<open>float64\<close> product wherever that product is
  exact, as for the small integers of the examples.
\<close>

definition exactMul :: "real \<Rightarrow> real \<Rightarrow> real" where
  "exactMul a b = a * b"

definition enforceOne :: "bool \<Rightarrow> bool \<Rightarrow> real \<Rightarrow> Position \<Rightarrow> Position" where
  "enforceOne enabled clockwise speed m =
     m\<lparr>state := (state m)\<lparr>spindleSpeed := speed, spindleEnabled := enabled,
                            spindleClockwise := clockwise\<rparr>\<rparr>"

definition EnforceSpindle :: "bool \<Rightarrow> bool \<Rightarrow> real \<Rightarrow> Machine \<Rightarrow> Machine" where
  "EnforceSpindle enabled clockwise speed vm =
     vm\<lparr>posStack := map (enforceOne enabled clockwise speed) (posStack vm)\<rparr>"

text \<open>Concrete positions used in the examples.\<close>

definition mkState :: "MoveMode \<Rightarrow> real \<Rightarrow> State" where
  "mkState mode f =
     \<lparr>feedrate = f, spindleSpeed = 0, moveMode = mode, spindleEnabled = False,
      spindleClockwise = False\<rparr>"

definition mkPos :: "MoveMode \<Rightarrow> real \<Rightarrow> real \<Rightarrow> real \<Rightarrow> real \<Rightarrow> Position" where
  "mkPos mode f a b c = \<lparr>state = mkState mode f, px = a, py = b, pz = c\<rparr>"

definition mkMachine :: "Position list \<Rightarrow> Machine" where
  "mkMachine ms = \<lparr>posStack = ms, tolerance = 1 / 1000\<rparr>"

section \<open>Lift-speed promotion and redundant-segment collapse\<close>

text \<open>
  \<^verbatim>\<open>OptLiftSpeed\<close> scans the stack with the coordinates of the previous record, which
  start at 0, and sets the mode of the record at the current index.
\<close>

definition setRapid :: "Position \<Rightarrow> Position" where
  "setRapid m = m\<lparr>state := (state m)\<lparr>moveMode := moveModeRapid\<rparr>\<rparr>"

fun liftLoop :: "real \<Rightarrow> real \<Rightarrow> real \<Rightarrow> Position list \<Rightarrow> Position list" where
  "liftLoop lastx lasty lastz [] = []"
| "liftLoop lastx lasty lastz (m # ms) =
     (if px m = lastx \<and> py m = lasty \<and> pz m > lastz then setRapid m else m)
       # liftLoop (px m) (py m) (pz m) ms"

definition OptLiftSpeed :: "Machine \<Rightarrow> Machine" where
  "OptLiftSpeed vm = vm\<lparr>posStack := liftLoop 0 0 0 (posStack vm)\<rparr>"

text \<open>
  \<^verbatim>\<open>OptBogusMoves\<close> builds a new stack; its loop state is the running position, the
  recorded unit vector and the stack built so far. The assignment to the last element of
  an empty stack is a runtime panic, which this pass does not recover.

  The unit vector is the result of \<^verbatim>\<open>float64\<close> arithmetic (three subtractions,
  \<^verbatim>\<open>math.Pow\<close>, \<^verbatim>\<open>math.Sqrt\<close> and three divisions) and is compared with \<^verbatim>\<open>float64\<close>
  equality. These operations are parameters of the model, and nothing is assumed about
  them: \<open>unitVector ops dx dy dz\<close> is the triple \<^verbatim>\<open>vecX, vecY, vecZ\<close> that the machine
  computes for a move whose exact displacement is \<open>dx\<close>, \<open>dy\<close>, \<open>dz\<close> (the rounding of the
  subtractions is part of the parameter), with components of a type \<open>'v\<close> of \<^verbatim>\<open>float64\<close>
  results, which may be infinite or NaN; \<open>floatEq ops\<close> is \<^verbatim>\<open>==\<close> on them, and
  \<open>floatZero ops\<close> is the initial value 0 of the recorded vector. The test for a zero
  displacement is exact: a \<^verbatim>\<open>float64\<close> difference of finite values is a correctly rounded
  difference, and it is 0 exactly when the two values are equal.
\<close>

record 'v floatOps =
  unitVector :: "real \<Rightarrow> real \<Rightarrow> real \<Rightarrow> 'v \<times> 'v \<times> 'v"
  floatEq :: "'v \<Rightarrow> 'v \<Rightarrow> bool"
  floatZero :: 'v

record 'v bogusState =
  xstate :: real
  ystate :: real
  zstate :: real
  lastvecX :: 'v
  lastvecY :: 'v
  lastvecZ :: 'v
  npos :: "Position list"

definition bogusInit :: "'v floatOps \<Rightarrow> 'v bogusState" where
  "bogusInit ops =
     \<lparr>xstate = 0, ystate = 0, zstate = 0, lastvecX = floatZero ops,
      lastvecY = floatZero ops, lastvecZ = floatZero ops, npos = []\<rparr>"

definition bogusStep ::
  "'v floatOps \<Rightarrow> 'v bogusState \<Rightarrow> Position \<Rightarrow> error + 'v bogusState" where
  "bogusStep ops s m =
     (let dx = px m - xstate s; dy = py m - ystate s; dz = pz m - zstate s;
          s1 = s\<lparr>xstate := px m, ystate := py m, zstate := pz m\<rparr>
      in if moveMode (state m) \<noteq> moveModeRapid \<and> moveMode (state m) \<noteq> moveModeLinear
         then Inr (s1\<lparr>npos := npos s @ [m]\<rparr>)
         else if dx = 0 \<and> dz = 0 \<and> dy = 0 then Inr s1
         else
           (case unitVector ops dx dy dz of
              (vecX, vecY, vecZ) \<Rightarrow>
                if floatEq ops (lastvecX s) vecX \<and> floatEq ops (lastvecY s) vecY
                   \<and> floatEq ops (lastvecZ s) vecZ
                then (if npos s = [] then Inl IndexOutOfRange
                      else Inr (s1\<lparr>npos := (npos s)[length (npos s) - 1 := m]\<rparr>))
                else Inr (s1\<lparr>npos := npos s @ [m], lastvecX := vecX, lastvecY := vecY,
                              lastvecZ := vecZ\<rparr>)))"

fun bogusLoop :: "'v floatOps \<Rightarrow> 'v bogusState \<Rightarrow> Position list \<Rightarrow> error + 'v bogusState"
where
  "bogusLoop ops s [] = Inr s"
| "bogusLoop ops s (m # ms) =
     (case bogusStep ops s m of Inl e \<Rightarrow> Inl e | Inr s' \<Rightarrow> bogusLoop ops s' ms)"

definition OptBogusMoves :: "'v floatOps \<Rightarrow> Machine \<Rightarrow> error + Machine" where
  "OptBogusMoves ops vm =
     (case bogusLoop ops (bogusInit ops) (posStack vm) of
        Inl e \<Rightarrow> Inl e
      | Inr s \<Rightarrow> Inr (vm\<lparr>posStack := npos s\<rparr>))"

text \<open>
  The coordinates of the record before index \<open>i\<close> (0 before the first record) and the
  moves that are lifts.
\<close>

definition prevX :: "Position list \<Rightarrow> nat \<Rightarrow> real" where
  "prevX ms i = (if i = 0 then 0 else px (ms ! (i - 1)))"
definition prevY :: "Position list \<Rightarrow> nat \<Rightarrow> real" where
  "prevY ms i = (if i = 0 then 0 else py (ms ! (i - 1)))"
definition prevZ :: "Position list \<Rightarrow> nat \<Rightarrow> real" where
  "prevZ ms i = (if i = 0 then 0 else pz (ms ! (i - 1)))"

definition isLift :: "Position list \<Rightarrow> nat \<Rightarrow> bool" where
  "isLift ms i \<longleftrightarrow> px (ms ! i) = prevX ms i \<and> py (ms ! i) = prevY ms i \<and> pz (ms ! i) > prevZ ms i"

text \<open>
  The words of the claims about the collapse: the moves whose mode is neither Rapid nor
  Linear; the loop state with the running position advanced to a move; a move at the
  running position (zero displacement); the unit vector of a move's displacement from the
  running position; and that vector being identical, component by component in the order
  of the code's test, to the recorded one.
\<close>

definition isOpaque :: "Position \<Rightarrow> bool" where
  "isOpaque m \<longleftrightarrow> moveMode (state m) \<noteq> moveModeRapid \<and> moveMode (state m) \<noteq> moveModeLinear"

definition advance :: "'v bogusState \<Rightarrow> Position \<Rightarrow> 'v bogusState" where
  "advance s m = s\<lparr>xstate := px m, ystate := py m, zstate := pz m\<rparr>"

definition atRunningPos :: "'v bogusState \<Rightarrow> Position \<Rightarrow> bool" where
  "atRunningPos s m \<longleftrightarrow> px m = xstate s \<and> py m = ystate s \<and> pz m = zstate s"

definition vecOf :: "'v floatOps \<Rightarrow> 'v bogusState \<Rightarrow> Position \<Rightarrow> 'v \<times> 'v \<times> 'v" where
  "vecOf ops s m = unitVector ops (px m - xstate s) (py m - ystate s) (pz m - zstate s)"

definition vecEq :: "'v floatOps \<Rightarrow> 'v \<times> 'v \<times> 'v \<Rightarrow> 'v \<times> 'v \<times> 'v \<Rightarrow> bool" where
  "vecEq ops a b \<longleftrightarrow>
     floatEq ops (fst a) (fst b) \<and> floatEq ops (fst (snd a)) (fst (snd b))
     \<and> floatEq ops (snd (snd a)) (snd (snd b))"

definition sameVec :: "'v floatOps \<Rightarrow> 'v bogusState \<Rightarrow> Position \<Rightarrow> bool" where
  "sameVec ops s m \<longleftrightarrow> vecEq ops (lastvecX s, lastvecY s, lastvecZ s) (vecOf ops s m)"

text \<open>
  A record that is the last of the output is not collapsed onto by the moves that
  follow when the first of them that is not dropped is appended: it is of opaque mode, or
  its unit vector is not identical to the recorded one.
\<close>

fun notCollapsedBy :: "'v floatOps \<Rightarrow> 'v bogusState \<Rightarrow> Position list \<Rightarrow> bool" where
  "notCollapsedBy ops s [] = True"
| "notCollapsedBy ops s (m # ms) =
     (if isOpaque m then True
      else if atRunningPos s m then notCollapsedBy ops (advance s m) ms
      else \<not> sameVec ops s m)"

text \<open>
  The operations without rounding, on \<^typ>\<open>real\<close>. They are the \<^verbatim>\<open>float64\<close> operations
  wherever the \<^verbatim>\<open>float64\<close> computation is exact, as in the examples: displacements along
  one axis with integer coordinates, where the norm is the integer length and every
  quotient is 0 or 1.
\<close>

definition unitVec :: "real \<Rightarrow> real \<Rightarrow> real \<Rightarrow> real \<times> real \<times> real" where
  "unitVec dx dy dz =
     (dx / sqrt (dx ^ 2 + dy ^ 2 + dz ^ 2), dy / sqrt (dx ^ 2 + dy ^ 2 + dz ^ 2),
      dz / sqrt (dx ^ 2 + dy ^ 2 + dz ^ 2))"

definition exactOps :: "real floatOps" where
  "exactOps = \<lparr>unitVector = unitVec, floatEq = (\<lambda>a b. a = b), floatZero = 0\<rparr>"

section \<open>Return to origin and safety height\<close>

text \<open>
  \<^verbatim>\<open>Return\<close> computes a running maximum of z, started at 0, reads the last record of the
  stack (a runtime panic on an empty stack, not recovered) and appends to the stack.
  \<^verbatim>\<open>SetSafetyHeight\<close> computes the two running maxima \<^verbatim>\<open>maxz\<close> and \<^verbatim>\<open>nextz\<close>, both
  started at 0, returns its error before it changes anything, and otherwise rewrites z in
  place, index by index.
\<close>

fun maxzLoop :: "real \<Rightarrow> Position list \<Rightarrow> real" where
  "maxzLoop maxz [] = maxz"
| "maxzLoop maxz (m # ms) = maxzLoop (if pz m > maxz then pz m else maxz) ms"

definition Return :: "Machine \<Rightarrow> error + Machine" where
  "Return vm =
     (let maxz = maxzLoop 0 (posStack vm)
      in if posStack vm = [] then Inl IndexOutOfRange
         else
           let lastPos = posStack vm ! (length (posStack vm) - 1)
           in if px lastPos = 0 \<and> py lastPos = 0 \<and> pz lastPos = 0 then Inr vm
              else if px lastPos = 0 \<and> py lastPos = 0 \<and> pz lastPos \<noteq> 0
              then Inr (vm\<lparr>posStack := posStack vm @ [setRapid (lastPos\<lparr>pz := 0\<rparr>)]\<rparr>)
              else if pz lastPos = maxz
              then
                let move1 = setRapid (lastPos\<lparr>px := 0, py := 0\<rparr>);
                    move2 = move1\<lparr>pz := 0\<rparr>
                in Inr (vm\<lparr>posStack := (posStack vm @ [move1]) @ [move2]\<rparr>)
              else
                let move1 = setRapid (lastPos\<lparr>pz := maxz\<rparr>);
                    move2 = move1\<lparr>px := 0, py := 0\<rparr>;
                    move3 = move2\<lparr>pz := 0\<rparr>
                in Inr (vm\<lparr>posStack := ((posStack vm @ [move1]) @ [move2]) @ [move3]\<rparr>))"

text \<open>
  The spec's words for the quantities of the safety-height and return passes:
  \<open>pathMax\<close> is the maximum z of the path; \<open>flooredMax\<close> is the maximum of 0 and every
  z of the path, which is what the running maximum of the code, started at 0, computes.
\<close>

definition pathMax :: "Position list \<Rightarrow> real" where
  "pathMax ms = Max (set (map pz ms))"

definition flooredMax :: "Position list \<Rightarrow> real" where
  "flooredMax ms = Max (set (0 # map pz ms))"

definition rapidAt :: "Position \<Rightarrow> real \<Rightarrow> real \<Rightarrow> real \<Rightarrow> Position" where
  "rapidAt p a b c = setRapid (p\<lparr>px := a, py := b, pz := c\<rparr>)"

definition returnMoves :: "Position list \<Rightarrow> Position list" where
  "returnMoves ms =
     (let l = last ms
      in if px l = 0 \<and> py l = 0 \<and> pz l = 0 then []
         else if px l = 0 \<and> py l = 0 then [rapidAt l 0 0 0]
         else if pz l = flooredMax ms then [rapidAt l 0 0 (pz l), rapidAt l 0 0 0]
         else [rapidAt l (px l) (py l) (flooredMax ms), rapidAt l 0 0 (flooredMax ms),
               rapidAt l 0 0 0])"

definition heightStep :: "real \<times> real \<Rightarrow> Position \<Rightarrow> real \<times> real" where
  "heightStep acc m =
     (let (maxz, nextz) = acc;
          (maxz1, nextz1) = (if pz m > maxz then (pz m, maxz) else (maxz, nextz));
          nextz2 = (if pz m > nextz1 \<and> pz m < maxz1 then pz m else nextz1)
      in (maxz1, nextz2))"

fun heightLoop :: "real \<times> real \<Rightarrow> Position list \<Rightarrow> real \<times> real" where
  "heightLoop acc [] = acc"
| "heightLoop acc (m # ms) = heightLoop (heightStep acc m) ms"

fun applyHeight :: "real \<Rightarrow> real \<Rightarrow> real \<Rightarrow> real \<Rightarrow> Position list \<Rightarrow> Position list" where
  "applyHeight height maxz lastx lasty [] = []"
| "applyHeight height maxz lastx lasty (m # ms) =
     (if lastx = px m \<and> lasty = py m \<and> pz m = maxz then m\<lparr>pz := height\<rparr> else m)
       # applyHeight height maxz (px m) (py m) ms"

definition SetSafetyHeight :: "real \<Rightarrow> Machine \<Rightarrow> error option \<times> Machine" where
  "SetSafetyHeight height vm =
     (let (maxz, nextz) = heightLoop (0, 0) (posStack vm)
      in if height \<le> nextz then (Some (SafetyHeightConflict nextz), vm)
         else (None, vm\<lparr>posStack := applyHeight height maxz 0 0 (posStack vm)\<rparr>))"

text \<open>
  The spec's words: \<open>lowerFeedHeight\<close> is the next-highest distinct z value below the
  path's maximum z. \<open>flooredNext\<close> is the greatest of 0 and every z of the path strictly
  below \<open>flooredMax\<close>, and \<open>rewriteHeight\<close> rewrites the record at an index when its x and
  y equal those of the prior record (the origin for the first record) and its z equals
  \<open>flooredMax\<close>.
\<close>

definition lowerFeedHeight :: "Position list \<Rightarrow> real" where
  "lowerFeedHeight ms = Max (set (filter (\<lambda>z. z < pathMax ms) (map pz ms)))"

definition flooredNext :: "Position list \<Rightarrow> real" where
  "flooredNext ms = Max (set (0 # filter (\<lambda>z. z < flooredMax ms) (map pz ms)))"

definition rewriteHeight :: "real \<Rightarrow> Position list \<Rightarrow> nat \<Rightarrow> Position" where
  "rewriteHeight height ms i =
     (if px (ms ! i) = prevX ms i \<and> py (ms ! i) = prevY ms i \<and> pz (ms ! i) = flooredMax ms
      then (ms ! i)\<lparr>pz := height\<rparr> else ms ! i)"

section \<open>Drill-speed memoisation\<close>

text \<open>
  The closure \<^verbatim>\<open>fastDrill\<close> scans the drill stack for the deepest earlier position at the
  x and y of its argument, starting from depth 0 with nothing found, appends its argument
  to the drill stack, and returns the position to insert, the position to emit and
  whether to insert. The model passes the drill stack in and out. \<open>drillLoop\<close> is the
  loop over the position stack.
\<close>

definition drillScanStep :: "Position \<Rightarrow> real \<times> bool \<Rightarrow> Position \<Rightarrow> real \<times> bool" where
  "drillScanStep pos acc m =
     (let (depth, found) = acc
      in if px m = px pos \<and> py m = py pos
         then (if pz m < depth then (pz m, True) else (depth, found))
         else (depth, found))"

fun drillScan :: "Position \<Rightarrow> real \<times> bool \<Rightarrow> Position list \<Rightarrow> real \<times> bool" where
  "drillScan pos acc [] = acc"
| "drillScan pos acc (m # ms) = drillScan pos (drillScanStep pos acc m) ms"

definition fastDrill ::
  "Position list \<Rightarrow> Position \<Rightarrow> Position list \<times> Position \<times> Position \<times> bool" where
  "fastDrill drillStack pos =
     (let (depth, found) = drillScan pos (0, False) drillStack;
          drillStack' = drillStack @ [pos]
      in if found
         then (if pz pos \<ge> depth
               then (drillStack', setRapid pos, setRapid pos, False)
               else (drillStack', setRapid (pos\<lparr>pz := depth\<rparr>), pos, True))
         else (drillStack', pos, pos, False))"

fun drillLoop ::
  "real \<Rightarrow> real \<Rightarrow> real \<Rightarrow> Position list \<Rightarrow> Position list \<Rightarrow> Position list \<Rightarrow> Position list"
where
  "drillLoop lastx lasty lastz drillStack out [] = out"
| "drillLoop lastx lasty lastz drillStack out (m # ms) =
     (if px m = lastx \<and> py m = lasty \<and> pz m < lastz \<and> moveMode (state m) = moveModeLinear
      then
        (case fastDrill drillStack m of
           (drillStack', posn, poso, shouldinsert) \<Rightarrow>
             drillLoop (px m) (py m) (pz m) drillStack'
               ((if shouldinsert then out @ [posn] else out) @ [poso]) ms)
      else drillLoop (px m) (py m) (pz m) drillStack (out @ [m]) ms)"

definition OptDrillSpeed :: "Machine \<Rightarrow> Machine" where
  "OptDrillSpeed vm = vm\<lparr>posStack := drillLoop 0 0 0 [] [] (posStack vm)\<rparr>"

text \<open>
  The words of the claims about drill memoisation. A move \<open>qualifies\<close> when it has the x
  and y of the preceding move (the origin before the first move), a strictly smaller z
  and mode Linear. The \<open>history\<close> of index \<open>i\<close> is the list of qualifying moves before
  \<open>i\<close>, which is the drill stack when move \<open>i\<close> is scanned. \<open>depthsAt\<close> lists the depths
  of the history at the location of move \<open>i\<close>; the location has a recorded minimum depth
  when one of them is below 0, and the recorded depth is their minimum. \<open>drillChunk\<close> is
  what the pass emits for move \<open>i\<close>.
\<close>

definition qualifies :: "Position list \<Rightarrow> nat \<Rightarrow> bool" where
  "qualifies ms i \<longleftrightarrow>
     px (ms ! i) = prevX ms i \<and> py (ms ! i) = prevY ms i \<and> pz (ms ! i) < prevZ ms i
     \<and> moveMode (state (ms ! i)) = moveModeLinear"

definition history :: "Position list \<Rightarrow> nat \<Rightarrow> Position list" where
  "history ms i = map (\<lambda>j. ms ! j) (filter (qualifies ms) [0 ..< i])"

definition depthsAt :: "Position list \<Rightarrow> nat \<Rightarrow> real list" where
  "depthsAt ms i =
     map pz (filter (\<lambda>h. px h = px (ms ! i) \<and> py h = py (ms ! i)) (history ms i))"

definition recordedDepth :: "Position list \<Rightarrow> nat \<Rightarrow> real option" where
  "recordedDepth ms i =
     (if list_ex (\<lambda>z. z < 0) (depthsAt ms i) then Some (Min (set (depthsAt ms i))) else None)"

definition drillChunk :: "Position list \<Rightarrow> nat \<Rightarrow> Position list" where
  "drillChunk ms i =
     (if qualifies ms i
      then (case recordedDepth ms i of
              None \<Rightarrow> [ms ! i]
            | Some d \<Rightarrow>
                if pz (ms ! i) \<ge> d then [setRapid (ms ! i)]
                else [setRapid ((ms ! i)\<lparr>pz := d\<rparr>), ms ! i])
      else [ms ! i])"

definition drillExample :: "Position list" where
  "drillExample =
     [mkPos moveModeRapid 0 0 0 0, mkPos moveModeRapid 0 0 0 5,
      mkPos moveModeLinear 100 0 0 (-10), mkPos moveModeRapid 0 0 0 5,
      mkPos moveModeLinear 100 0 0 (-5), mkPos moveModeRapid 0 0 0 5,
      mkPos moveModeLinear 100 0 0 (-15)]"

definition shallowExample :: "Position list" where
  "shallowExample =
     [mkPos moveModeRapid 0 0 0 0, mkPos moveModeRapid 0 0 0 5,
      mkPos moveModeLinear 100 0 0 2, mkPos moveModeRapid 0 0 0 5,
      mkPos moveModeLinear 100 0 0 1]"

section \<open>Route grouping\<close>

text \<open>
  \<^verbatim>\<open>OptRouteGrouping\<close> recovers every panic into its error result; the position stack is
  assigned only at the end. The loop over the stack is \<open>groupLoop\<close>, the checks after it
  \<open>finalSetCheck\<close>, the nearest-neighbour ordering \<open>sortLoop\<close> with its inner loop
  \<open>selectLoop\<close>, and the reconstruction \<open>rebuildLoop\<close> with the closures \<^verbatim>\<open>moveTo\<close> and
  \<^verbatim>\<open>addPos\<close>. The loop variables \<^verbatim>\<open>lastx\<close>, \<^verbatim>\<open>lasty\<close>, \<^verbatim>\<open>lastz\<close> are the fields
  \<open>lastX\<close>, \<open>lastY\<close>, \<open>lastZ\<close> of the loop state.
\<close>

record groupState =
  lastX :: real
  lastY :: real
  lastZ :: real
  sets :: "Position list list"
  curSet :: "Position list"
  safetyHeight :: real
  drillSpeed :: real
  sequenceStarted :: bool

definition groupInit :: groupState where
  "groupInit = \<lparr>lastX = 0, lastY = 0, lastZ = 0, sets = [], curSet = [], safetyHeight = 0,
                 drillSpeed = 0, sequenceStarted = False\<rparr>"

definition regularMove :: "groupState \<Rightarrow> Position \<Rightarrow> groupState" where
  "regularMove s m = (if sequenceStarted s then s\<lparr>curSet := curSet s @ [m]\<rparr> else s)"

definition updateLast :: "groupState \<Rightarrow> Position \<Rightarrow> groupState" where
  "updateLast s m =
     s\<lparr>safetyHeight := (if pz m > safetyHeight s then pz m else safetyHeight s),
       lastX := px m, lastY := py m, lastZ := pz m\<rparr>"

definition groupStep :: "groupState \<Rightarrow> Position \<Rightarrow> error + groupState" where
  "groupStep s m =
     (if pz m \<noteq> lastZ s \<and> (px m \<noteq> lastX s \<or> py m \<noteq> lastY s) then Inl GeometryViolation
      else if px m = lastX s \<and> py m = lastY s \<and> lastZ s \<ge> 0 \<and> pz m < 0
      then
        (let s1 = s\<lparr>sequenceStarted := True, curSet := curSet s @ [m]\<rparr>
         in if moveMode (state m) = moveModeLinear \<and> feedrate (state m) > drillSpeed s
            then (if drillSpeed s \<noteq> 0 then Inl AmbiguousFeedrate
                  else Inr (updateLast
                         (regularMove (s1\<lparr>drillSpeed := feedrate (state m)\<rparr>) m) m))
            else Inr (updateLast (regularMove s1 m) m))
      else if px m = lastX s \<and> py m = lastY s \<and> lastZ s < 0 \<and> pz m \<ge> 0
      then Inr (updateLast
             (s\<lparr>sets := (if sequenceStarted s then sets s @ [curSet s] else sets s),
                curSet := []\<rparr>) m)
      else Inr (updateLast (regularMove s m) m))"

fun groupLoop :: "groupState \<Rightarrow> Position list \<Rightarrow> error + groupState" where
  "groupLoop s [] = Inr s"
| "groupLoop s (m # ms) =
     (case groupStep s m of Inl e \<Rightarrow> Inl e | Inr s' \<Rightarrow> groupLoop s' ms)"

definition finalSetCheck :: "groupState \<Rightarrow> error + unit" where
  "finalSetCheck s =
     (if safetyHeight s = 0 then Inl SafetyHeightUndetected
      else if drillSpeed s = 0 then Inl DrillFeedrateUndetected
      else if length (curSet s) = 1
      then (if pz (curSet s ! 0) \<noteq> safetyHeight s \<or> lastZ s \<noteq> safetyHeight s
               \<or> px (curSet s ! 0) \<noteq> 0 \<or> py (curSet s ! 0) \<noteq> 0
            then Inl UnterminatedSequence else Inr ())
      else if length (curSet s) > 0 then Inl UnterminatedSequence
      else Inr ())"

definition diffFromCur :: "real \<times> real \<times> real \<Rightarrow> Position \<Rightarrow> real" where
  "diffFromCur cur pos =
     (let (curX, curY, curZ) = cur;
          x = max curX (px pos) - min curX (px pos);
          y = max curY (py pos) - min curY (py pos);
          z = max curZ (pz pos) - min curZ (pz pos)
      in sqrt (x ^ 2 + y ^ 2 + z ^ 2))"

definition firstOf :: "Position list list \<Rightarrow> int \<Rightarrow> error + Position" where
  "firstOf ss i =
     (if i < 0 \<or> i \<ge> int (length ss) then Inl IndexOutOfRange
      else (case ss ! nat i of [] \<Rightarrow> Inl IndexOutOfRange | p # ps \<Rightarrow> Inr p))"

fun selectLoop ::
  "real \<times> real \<times> real \<Rightarrow> Position list list \<Rightarrow> nat list \<Rightarrow> int \<Rightarrow> error + int" where
  "selectLoop cur ss [] selectedSet = Inr selectedSet"
| "selectLoop cur ss (idx # idxs) selectedSet =
     (if selectedSet = -1 then selectLoop cur ss idxs (int idx)
      else
        (case firstOf ss (int idx) of
           Inl e \<Rightarrow> Inl e
         | Inr p \<Rightarrow>
             (case firstOf ss selectedSet of
                Inl e \<Rightarrow> Inl e
              | Inr q \<Rightarrow>
                  selectLoop cur ss idxs
                    (if diffFromCur cur p < diffFromCur cur q then int idx else selectedSet))))"

function sortLoop ::
  "real \<times> real \<times> real \<Rightarrow> Position list list \<Rightarrow> Position list list \<Rightarrow> int
     \<Rightarrow> error + Position list list" where
  "sortLoop cur ss sortedSets selectedSet =
     (if length ss > 0
      then
        (case selectLoop cur ss [0 ..< length ss] selectedSet of
           Inl e \<Rightarrow> Inl e
         | Inr sel \<Rightarrow>
             (case firstOf ss sel of
                Inl e \<Rightarrow> Inl e
              | Inr p \<Rightarrow>
                  sortLoop (px p, py p, pz p) (take (nat sel) ss @ drop (nat sel + 1) ss)
                    (sortedSets @ [ss ! nat sel]) (-1)))
      else Inr sortedSets)"
  by pat_completeness auto
termination
proof (relation "measure (\<lambda>(cur, ss, sortedSets, selectedSet). length ss)")
  show "wf (measure (\<lambda>(cur, ss, sortedSets, selectedSet). length ss))"
    by simp
next
  fix cur :: "real \<times> real \<times> real" and ss sortedSets :: "Position list list"
    and selectedSet sel :: int and p :: Position
  assume "firstOf ss sel = Inr p"
  then have "0 \<le> sel" "nat sel < length ss"
    by (auto simp: firstOf_def split: if_splits)
  then show "(((px p, py p, pz p), take (nat sel) ss @ drop (nat sel + 1) ss,
               sortedSets @ [ss ! nat sel], -1),
              (cur, ss, sortedSets, selectedSet))
             \<in> measure (\<lambda>(cur, ss, sortedSets, selectedSet). length ss)"
    by simp
qed

declare sortLoop.simps [simp del]

definition moveTo ::
  "real \<Rightarrow> real \<Rightarrow> real \<Rightarrow> Position list \<Rightarrow> Position \<Rightarrow> error + Position list" where
  "moveTo tol safetyH drillS newPos pos =
     (if newPos = [] then Inl IndexOutOfRange
      else
        let curPos = newPos ! (length newPos - 1)
        in if \<bar>px curPos - px pos\<bar> < tol \<and> \<bar>py curPos - py pos\<bar> < tol
           then
             (let newPos1 =
                    (if px curPos \<noteq> px pos \<or> py curPos \<noteq> py pos
                     then newPos @ [curPos\<lparr>state := (state curPos)\<lparr>moveMode := moveModeLinear\<rparr>,
                                           px := px pos, py := py pos\<rparr>]
                     else newPos)
              in if pz pos = safetyH then Inr newPos1 else Inr (newPos1 @ [pos]))
           else
             (let step1 = setRapid (curPos\<lparr>pz := safetyH\<rparr>);
                  step2 = step1\<lparr>px := px pos, py := py pos\<rparr>;
                  step3 = step2\<lparr>pz := pz pos,
                            state := (state step2)\<lparr>moveMode := moveModeLinear,
                                                   feedrate := drillS\<rparr>\<rparr>
              in Inr (((newPos @ [step1]) @ [step2]) @ [step3])))"

definition addSet ::
  "real \<Rightarrow> real \<Rightarrow> real \<Rightarrow> Position list \<Rightarrow> Position list \<Rightarrow> error + Position list" where
  "addSet tol safetyH drillS newPos m =
     (case m of
        [] \<Rightarrow> Inr newPos
      | p # ps \<Rightarrow>
          (case moveTo tol safetyH drillS newPos p of
             Inl e \<Rightarrow> Inl e
           | Inr newPos1 \<Rightarrow> Inr (newPos1 @ ps)))"

fun rebuildLoop ::
  "real \<Rightarrow> real \<Rightarrow> real \<Rightarrow> Position list \<Rightarrow> Position list list \<Rightarrow> error + Position list"
where
  "rebuildLoop tol safetyH drillS newPos [] = Inr newPos"
| "rebuildLoop tol safetyH drillS newPos (m # ms) =
     (case addSet tol safetyH drillS newPos m of
        Inl e \<Rightarrow> Inl e
      | Inr newPos1 \<Rightarrow> rebuildLoop tol safetyH drillS newPos1 ms)"

definition routeGrouping :: "Machine \<Rightarrow> error + Position list" where
  "routeGrouping vm =
     (case groupLoop groupInit (posStack vm) of
        Inl e \<Rightarrow> Inl e
      | Inr s \<Rightarrow>
          (case finalSetCheck s of
             Inl e \<Rightarrow> Inl e
           | Inr u \<Rightarrow>
               (case sortLoop (0, 0, 0) (sets s) [] 0 of
                  Inl e \<Rightarrow> Inl e
                | Inr sortedSets \<Rightarrow>
                    (case posStack vm of
                       [] \<Rightarrow> Inl IndexOutOfRange
                     | p0 # rest \<Rightarrow>
                         rebuildLoop (tolerance vm) (safetyHeight s) (drillSpeed s) [p0]
                           sortedSets))))"

definition OptRouteGrouping :: "Machine \<Rightarrow> error option \<times> Machine" where
  "OptRouteGrouping vm =
     (case routeGrouping vm of
        Inl e \<Rightarrow> (Some e, vm)
      | Inr newPos \<Rightarrow> (None, vm\<lparr>posStack := newPos\<rparr>))"

text \<open>
  The groups of a toolpath are the sets collected by the grouping loop.
\<close>

definition groupsOf :: "Position list \<Rightarrow> Position list list" where
  "groupsOf ms = (case groupLoop groupInit ms of Inl e \<Rightarrow> [] | Inr s \<Rightarrow> sets s)"

definition feedExample :: "real \<Rightarrow> real \<Rightarrow> Position list" where
  "feedExample f1 f2 =
     [mkPos moveModeRapid 0 0 0 0, mkPos moveModeRapid 0 0 0 5,
      mkPos moveModeLinear f1 0 0 (-1), mkPos moveModeRapid 0 0 0 5,
      mkPos moveModeRapid 0 10 0 5, mkPos moveModeLinear f2 10 0 (-1),
      mkPos moveModeRapid 0 10 0 5]"

text \<open>The result of route grouping on \<open>feedExample 150 100\<close>.\<close>

definition feedRouted :: "Position list" where
  "feedRouted =
     [mkPos moveModeRapid 0 0 0 0, mkPos moveModeLinear 150 0 0 (-1),
      mkPos moveModeLinear 150 0 0 (-1), mkPos moveModeRapid 150 0 0 5,
      mkPos moveModeRapid 150 10 0 5, mkPos moveModeLinear 150 10 0 5,
      mkPos moveModeLinear 100 10 0 (-1), mkPos moveModeLinear 100 10 0 (-1)]"







section \<open>Properties of the normalisation passes\<close>

lemma limitOne_idem: "limitOne feed (limitOne feed m) = limitOne feed m"
  by (simp add: limitOne_def)

lemma enforceOne_idem:
  "enforceOne e c s (enforceOne e c s m) = enforceOne e c s m"
  by (simp add: enforceOne_def)

lemma multiplyOne_twice:
  "multiplyOne fmul f (multiplyOne fmul f m)
     = m\<lparr>state := (state m)\<lparr>feedrate := fmul (fmul (feedrate (state m)) f) f\<rparr>\<rparr>"
  by (simp add: multiplyOne_def)

text \<open>
  Claim C9, as stated: each of the three normalisation mutators is idempotent. This fails
  for \<^verbatim>\<open>FeedrateMultiplier\<close>: one record with feedrate 100 and factor 2 gives 200 after
  one application and 400 after two. Both products are exact in \<^verbatim>\<open>float64\<close>.
\<close>

theorem FeedrateMultiplier_not_idempotent:
  "FeedrateMultiplier exactMul 2
     (FeedrateMultiplier exactMul 2 (mkMachine [mkPos moveModeLinear 100 0 0 0]))
     = mkMachine [mkPos moveModeLinear 400 0 0 0]
   \<and> FeedrateMultiplier exactMul 2 (mkMachine [mkPos moveModeLinear 100 0 0 0])
       = mkMachine [mkPos moveModeLinear 200 0 0 0]
   \<and> mkMachine [mkPos moveModeLinear 400 0 0 0] \<noteq> mkMachine [mkPos moveModeLinear 200 0 0 0]"
  by (simp add: FeedrateMultiplier_def multiplyOne_def exactMul_def mkMachine_def mkPos_def
        mkState_def)

text \<open>
  Claim C9, amended: \<^verbatim>\<open>LimitFeedrate\<close> and \<^verbatim>\<open>EnforceSpindle\<close> are idempotent for every
  toolpath and every parameter value. \<^verbatim>\<open>FeedrateMultiplier\<close> is not: a second
  application multiplies every feedrate by the factor once more, whatever the rounding
  of the product.
\<close>

theorem normalisation_idempotence:
  "LimitFeedrate feed (LimitFeedrate feed vm) = LimitFeedrate feed vm
   \<and> EnforceSpindle enabled clockwise speed (EnforceSpindle enabled clockwise speed vm)
       = EnforceSpindle enabled clockwise speed vm
   \<and> FeedrateMultiplier fmul factor (FeedrateMultiplier fmul factor vm)
       = vm\<lparr>posStack :=
            map (\<lambda>m. m\<lparr>state := (state m)\<lparr>feedrate :=
                         fmul (fmul (feedrate (state m)) factor) factor\<rparr>\<rparr>)
              (posStack vm)\<rparr>"
proof -
  have l: "LimitFeedrate feed (LimitFeedrate feed vm) = LimitFeedrate feed vm"
    by (simp add: LimitFeedrate_def limitOne_idem comp_def)
  have e: "EnforceSpindle enabled clockwise speed (EnforceSpindle enabled clockwise speed vm)
             = EnforceSpindle enabled clockwise speed vm"
    by (simp add: EnforceSpindle_def enforceOne_idem comp_def)
  have "map (multiplyOne fmul factor) (map (multiplyOne fmul factor) (posStack vm))
          = map (\<lambda>m. m\<lparr>state := (state m)\<lparr>feedrate :=
                         fmul (fmul (feedrate (state m)) factor) factor\<rparr>\<rparr>)
              (posStack vm)"
    by (simp add: comp_def multiplyOne_twice)
  then have f: "FeedrateMultiplier fmul factor (FeedrateMultiplier fmul factor vm)
       = vm\<lparr>posStack :=
            map (\<lambda>m. m\<lparr>state := (state m)\<lparr>feedrate :=
                         fmul (fmul (feedrate (state m)) factor) factor\<rparr>\<rparr>)
              (posStack vm)\<rparr>"
    by (simp add: FeedrateMultiplier_def)
  from l e f show ?thesis by (intro conjI)
qed

theorem normalisation_idempotence_witness:
  "LimitFeedrate 50 (LimitFeedrate 50 (mkMachine [mkPos moveModeLinear 100 0 0 0]))
     = LimitFeedrate 50 (mkMachine [mkPos moveModeLinear 100 0 0 0])
   \<and> EnforceSpindle True False 9 (EnforceSpindle True False 9 (mkMachine [mkPos moveModeLinear 100 0 0 0]))
       = EnforceSpindle True False 9 (mkMachine [mkPos moveModeLinear 100 0 0 0])
   \<and> FeedrateMultiplier exactMul 3
         (FeedrateMultiplier exactMul 3 (mkMachine [mkPos moveModeLinear 100 0 0 0]))
       = mkMachine [mkPos moveModeLinear 900 0 0 0]"
  using normalisation_idempotence
          [of 50 "mkMachine [mkPos moveModeLinear 100 0 0 0]" True False 9 exactMul 3]
  by (simp add: exactMul_def mkMachine_def mkPos_def mkState_def)

section \<open>Properties of lift-speed promotion and redundant-segment collapse\<close>

lemma length_liftLoop: "length (liftLoop a b c ms) = length ms"
  by (induction ms arbitrary: a b c) simp_all

lemma liftLoop_nth:
  "i < length ms \<Longrightarrow>
   liftLoop a b c ms ! i =
     (if px (ms ! i) = (if i = 0 then a else px (ms ! (i - 1)))
         \<and> py (ms ! i) = (if i = 0 then b else py (ms ! (i - 1)))
         \<and> pz (ms ! i) > (if i = 0 then c else pz (ms ! (i - 1)))
      then setRapid (ms ! i) else ms ! i)"
proof (induction ms arbitrary: a b c i)
  case Nil
  then show ?case by simp
next
  case (Cons m ms)
  show ?case
  proof (cases i)
    case 0
    then show ?thesis by simp
  next
    case (Suc j)
    with Cons.prems have j: "j < length ms" by simp
    show ?thesis
      using Cons.IH [OF j, of "px m" "py m" "pz m"] Suc
      by (cases j) simp_all
  qed
qed

lemma OptLiftSpeed_nth:
  "i < length (posStack vm) \<Longrightarrow>
   posStack (OptLiftSpeed vm) ! i =
     (if isLift (posStack vm) i then setRapid (posStack vm ! i) else posStack vm ! i)"
  by (simp add: OptLiftSpeed_def liftLoop_nth isLift_def prevX_def prevY_def prevZ_def)

lemma subseq_replace_last:
  assumes "subseq xs pre" "xs \<noteq> []"
  shows "subseq (xs[length xs - 1 := m]) (pre @ [m])"
proof -
  from assms(2) obtain ys l where xs: "xs = ys @ [l]"
    by (metis rev_exhaust)
  with assms(1) obtain us vs where "pre = us @ vs" "subseq ys us"
    by (auto dest: list_emb_appendD)
  then have "subseq ys pre"
    by (simp add: list_emb_prefix)
  then have "subseq (ys @ [m]) (pre @ [m])"
    by (simp add: list_emb_append_mono)
  then show ?thesis using xs by simp
qed

lemma bogusStep_unfold:
  "bogusStep ops s m =
     (if isOpaque m then Inr ((advance s m)\<lparr>npos := npos s @ [m]\<rparr>)
      else if atRunningPos s m then Inr (advance s m)
      else if sameVec ops s m
      then (if npos s = [] then Inl IndexOutOfRange
            else Inr ((advance s m)\<lparr>npos := (npos s)[length (npos s) - 1 := m]\<rparr>))
      else Inr ((advance s m)\<lparr>npos := npos s @ [m], lastvecX := fst (vecOf ops s m),
                  lastvecY := fst (snd (vecOf ops s m)),
                  lastvecZ := snd (snd (vecOf ops s m))\<rparr>))"
proof -
  obtain vx vy vz where v: "unitVector ops (px m - xstate s) (py m - ystate s) (pz m - zstate s)
                              = (vx, vy, vz)"
    by (metis prod_cases3)
  show ?thesis
    by (auto simp add: bogusStep_def isOpaque_def advance_def atRunningPos_def sameVec_def
          vecEq_def vecOf_def Let_def v)
qed

lemma bogusStep_opaque:
  assumes "isOpaque m"
  shows "bogusStep ops s m = Inr ((advance s m)\<lparr>npos := npos s @ [m]\<rparr>)"
  unfolding bogusStep_unfold if_P [OF assms] ..

lemma bogusStep_zero:
  assumes "\<not> isOpaque m" "atRunningPos s m"
  shows "bogusStep ops s m = Inr (advance s m)"
  unfolding bogusStep_unfold if_not_P [OF assms(1)] if_P [OF assms(2)] ..

lemma replace_last:
  "xs \<noteq> [] \<Longrightarrow> xs[length xs - Suc 0 := m] = butlast xs @ [m]"
  by (cases xs rule: rev_cases) simp_all

lemma bogusStep_same:
  assumes "\<not> isOpaque m" "\<not> atRunningPos s m" "sameVec ops s m"
  shows "bogusStep ops s m =
           (if npos s = [] then Inl IndexOutOfRange
            else Inr ((advance s m)\<lparr>npos := butlast (npos s) @ [m]\<rparr>))"
proof -
  have "bogusStep ops s m =
          (if npos s = [] then Inl IndexOutOfRange
           else Inr ((advance s m)\<lparr>npos := (npos s)[length (npos s) - 1 := m]\<rparr>))"
    unfolding bogusStep_unfold if_not_P [OF assms(1)] if_not_P [OF assms(2)] if_P [OF assms(3)] ..
  then show ?thesis by (cases "npos s = []") (simp_all add: replace_last)
qed

lemma bogusStep_other:
  assumes "\<not> isOpaque m" "\<not> atRunningPos s m" "\<not> sameVec ops s m"
  shows "bogusStep ops s m =
           Inr ((advance s m)\<lparr>npos := npos s @ [m], lastvecX := fst (vecOf ops s m),
                  lastvecY := fst (snd (vecOf ops s m)), lastvecZ := snd (snd (vecOf ops s m))\<rparr>)"
  unfolding bogusStep_unfold if_not_P [OF assms(1)] if_not_P [OF assms(2)]
    if_not_P [OF assms(3)] ..

lemma bogusStep_npos:
  assumes "bogusStep ops s m = Inr s'"
  shows "npos s' = npos s \<or> npos s' = npos s @ [m]
         \<or> (npos s \<noteq> [] \<and> npos s' = butlast (npos s) @ [m])"
proof (cases "isOpaque m")
  case True
  with assms show ?thesis by (auto simp: bogusStep_opaque)
next
  case no: False
  show ?thesis
  proof (cases "atRunningPos s m")
    case True
    with assms no show ?thesis by (auto simp: bogusStep_zero advance_def)
  next
    case nz: False
    show ?thesis
    proof (cases "sameVec ops s m")
      case True
      with assms no nz show ?thesis by (auto simp: bogusStep_same split: if_splits)
    next
      case False
      with assms no nz show ?thesis by (auto simp: bogusStep_other)
    qed
  qed
qed

lemma bogusStep_subseq:
  assumes "bogusStep ops s m = Inr s'" "subseq (npos s) pre"
  shows "subseq (npos s') (pre @ [m])"
  using bogusStep_npos [OF assms(1)]
proof (elim disjE conjE)
  assume "npos s' = npos s"
  with assms(2) show ?thesis by (simp add: list_emb_prefix)
next
  assume "npos s' = npos s @ [m]"
  with assms(2) show ?thesis by (simp add: list_emb_append_mono)
next
  assume "npos s \<noteq> []" "npos s' = butlast (npos s) @ [m]"
  moreover have "subseq (butlast (npos s) @ [m]) (pre @ [m])"
    using subseq_replace_last [OF assms(2) \<open>npos s \<noteq> []\<close>, of m] \<open>npos s \<noteq> []\<close>
    by (cases "npos s" rule: rev_cases) simp_all
  ultimately show ?thesis by simp
qed

lemma bogusLoop_subseq:
  "bogusLoop ops s ms = Inr s' \<Longrightarrow> subseq (npos s) pre \<Longrightarrow> subseq (npos s') (pre @ ms)"
proof (induction ms arbitrary: s pre)
  case Nil
  then show ?case by simp
next
  case (Cons m ms)
  from Cons.prems(1) obtain s1 where
    s1: "bogusStep ops s m = Inr s1" "bogusLoop ops s1 ms = Inr s'"
    by (auto split: sum.splits)
  from bogusStep_subseq [OF s1(1) Cons.prems(2)] have "subseq (npos s1) (pre @ [m])" .
  from Cons.IH [OF s1(2) this] show ?case by simp
qed

lemma bogusStep_butlast:
  assumes "bogusStep ops s m = Inr s'"
  shows "prefix (butlast (npos s)) (butlast (npos s'))"
  using bogusStep_npos [OF assms]
proof (elim disjE conjE)
  assume "npos s' = npos s"
  then show ?thesis by simp
next
  assume "npos s' = npos s @ [m]"
  then show ?thesis by (simp add: prefixeq_butlast)
next
  assume "npos s' = butlast (npos s) @ [m]"
  then show ?thesis by simp
qed

lemma bogusLoop_butlast:
  "bogusLoop ops s ms = Inr s' \<Longrightarrow> prefix (butlast (npos s)) (butlast (npos s'))"
proof (induction ms arbitrary: s)
  case Nil
  then show ?case by simp
next
  case (Cons m ms)
  from Cons.prems obtain s1 where
    s1: "bogusStep ops s m = Inr s1" "bogusLoop ops s1 ms = Inr s'"
    by (auto split: sum.splits)
  from bogusStep_butlast [OF s1(1)] Cons.IH [OF s1(2)] show ?case
    by (rule prefix_order.trans)
qed

lemma bogusLoop_keeps:
  assumes "bogusLoop ops s ms = Inr s'" "npos s = P @ [a, b]"
  shows "prefix (P @ [a]) (npos s')"
proof -
  from bogusLoop_butlast [OF assms(1)] assms(2)
  have "prefix (P @ [a]) (butlast (npos s'))" by (simp add: butlast_append)
  moreover have "prefix (butlast (npos s')) (npos s')" by (rule prefixeq_butlast)
  ultimately show ?thesis by (rule prefix_order.trans)
qed

lemma bogusLoop_notCollapsed:
  "notCollapsedBy ops s ms \<Longrightarrow> npos s = P @ [a] \<Longrightarrow> bogusLoop ops s ms = Inr s'
   \<Longrightarrow> prefix (P @ [a]) (npos s')"
proof (induction ms arbitrary: s)
  case Nil
  then show ?case by simp
next
  case (Cons m ms)
  from Cons.prems(3) obtain s1 where
    s1: "bogusStep ops s m = Inr s1" "bogusLoop ops s1 ms = Inr s'"
    by (auto split: sum.splits)
  show ?case
  proof (cases "isOpaque m")
    case True
    with s1(1) Cons.prems(2) have "npos s1 = P @ [a, m]"
      by (auto simp: bogusStep_opaque)
    from bogusLoop_keeps [OF s1(2) this] show ?thesis .
  next
    case no: False
    show ?thesis
    proof (cases "atRunningPos s m")
      case True
      with s1(1) no have eq: "s1 = advance s m" by (simp add: bogusStep_zero)
      have "notCollapsedBy ops (advance s m) ms"
        using Cons.prems(1) no True by simp
      moreover have "npos (advance s m) = P @ [a]"
        using Cons.prems(2) by (simp add: advance_def)
      ultimately show ?thesis using Cons.IH s1(2) eq by blast
    next
      case False
      with Cons.prems(1) no have "\<not> sameVec ops s m" by simp
      with s1(1) no False Cons.prems(2) have "npos s1 = P @ [a, m]"
        by (auto simp: bogusStep_other)
      from bogusLoop_keeps [OF s1(2) this] show ?thesis .
    qed
  qed
qed

lemma bogusLoop_append:
  "bogusLoop ops s (xs @ ys) =
     (case bogusLoop ops s xs of Inl e \<Rightarrow> Inl e | Inr s' \<Rightarrow> bogusLoop ops s' ys)"
  by (induction xs arbitrary: s) (auto split: sum.splits)

lemmas bogus_eval =
  OptBogusMoves_def bogusInit_def bogusStep_def exactOps_def unitVec_def mkMachine_def
  mkPos_def mkState_def Let_def

lemma advance_npos: "advance (s\<lparr>npos := x\<rparr>) m = (advance s m)\<lparr>npos := x\<rparr>"
  by (simp add: advance_def)

lemma notCollapsedBy_npos:
  "notCollapsedBy ops (s\<lparr>npos := x\<rparr>) ms = notCollapsedBy ops s ms"
proof (induction ms arbitrary: s)
  case Nil
  then show ?case by simp
next
  case (Cons m ms)
  have a: "atRunningPos (s\<lparr>npos := x\<rparr>) m = atRunningPos s m"
    by (simp add: atRunningPos_def)
  have b: "sameVec ops (s\<lparr>npos := x\<rparr>) m = sameVec ops s m"
    by (simp add: sameVec_def vecOf_def)
  show ?case
    using Cons.IH [of "advance s m"] by (simp add: a b advance_npos)
qed

text \<open>
  Claim C7, as stated: \<^verbatim>\<open>OptLiftSpeed\<close> and \<^verbatim>\<open>OptBogusMoves\<close> pass every move whose mode
  is neither Rapid nor Linear through completely unmodified. \<^verbatim>\<open>OptLiftSpeed\<close> does not
  look at the mode before promoting: a single opaque move to \<open>(0, 0, 5)\<close> is a lift from
  the initial \<open>(0, 0, 0)\<close> and comes out as a Rapid move. \<^verbatim>\<open>OptBogusMoves\<close> appends an
  opaque move and can overwrite it afterwards: of a Linear move to \<open>(1, 0, 0)\<close>, an opaque
  move to \<open>(2, 0, 0)\<close> and a Linear move to \<open>(3, 0, 0)\<close>, the opaque move is gone from the
  output. Every unit vector of this run is \<open>(1, 0, 0)\<close>, exactly.
\<close>

theorem opaque_moves_counterexample:
  "OptLiftSpeed (mkMachine [mkPos (moveModeOther 0) 0 0 0 5])
     = mkMachine [mkPos moveModeRapid 0 0 0 5]
   \<and> mkPos moveModeRapid 0 0 0 5 \<noteq> mkPos (moveModeOther 0) 0 0 0 5
   \<and> OptBogusMoves exactOps
         (mkMachine [mkPos moveModeLinear 100 1 0 0, mkPos (moveModeOther 0) 100 2 0 0,
                     mkPos moveModeLinear 100 3 0 0])
       = Inr (mkMachine [mkPos moveModeLinear 100 1 0 0, mkPos moveModeLinear 100 3 0 0])"
  by (simp add: OptLiftSpeed_def setRapid_def bogus_eval)

text \<open>
  Claim C7, amended: \<^verbatim>\<open>OptLiftSpeed\<close> keeps the length of the toolpath and passes a move
  whose mode is neither Rapid nor Linear through unmodified unless the move is a lift (same
  x and y as the preceding move, the origin for the first move, and strictly greater z);
  a lift of opaque mode has its mode set to Rapid and nothing else changed. In
  \<^verbatim>\<open>OptBogusMoves\<close> such a move is appended unmodified to the output when it is scanned,
  and the recorded unit vector stays as it was. When the pass returns, its output is a
  subsequence of its input, so that no record is altered, and the opaque move stands in
  the output, unmodified, after the records emitted for the moves before it, provided
  that the next move that is not dropped is appended and not collapsed onto it (that move
  is opaque, or its unit vector is not identical to the recorded one, or there is no such
  move).
\<close>

theorem opaque_moves:
  assumes "i < length (posStack vm)" and "isOpaque (posStack vm ! i)"
  shows "length (posStack (OptLiftSpeed vm)) = length (posStack vm)
         \<and> tolerance (OptLiftSpeed vm) = tolerance vm
         \<and> posStack (OptLiftSpeed vm) ! i
             = (if isLift (posStack vm) i then setRapid (posStack vm ! i) else posStack vm ! i)
         \<and> bogusStep ops s (posStack vm ! i)
             = Inr ((advance s (posStack vm ! i))\<lparr>npos := npos s @ [posStack vm ! i]\<rparr>)
         \<and> (\<forall>out. OptBogusMoves ops vm = Inr out \<longrightarrow>
               tolerance out = tolerance vm \<and> subseq (posStack out) (posStack vm)
               \<and> (\<exists>t. bogusLoop ops (bogusInit ops) (take i (posStack vm)) = Inr t
                      \<and> (notCollapsedBy ops (advance t (posStack vm ! i))
                            (drop (Suc i) (posStack vm))
                          \<longrightarrow> prefix (npos t @ [posStack vm ! i]) (posStack out))))"
proof -
  let ?ms = "posStack vm"
  let ?O = "posStack vm ! i"
  have 1: "length (posStack (OptLiftSpeed vm)) = length ?ms"
    by (simp add: OptLiftSpeed_def length_liftLoop)
  have 2: "tolerance (OptLiftSpeed vm) = tolerance vm"
    by (simp add: OptLiftSpeed_def)
  have 3: "posStack (OptLiftSpeed vm) ! i = (if isLift ?ms i then setRapid ?O else ?O)"
    by (rule OptLiftSpeed_nth [OF assms(1)])
  have 4: "bogusStep ops s ?O = Inr ((advance s ?O)\<lparr>npos := npos s @ [?O]\<rparr>)"
    by (rule bogusStep_opaque [OF assms(2)])
  have 5: "tolerance out = tolerance vm \<and> subseq (posStack out) ?ms
               \<and> (\<exists>t. bogusLoop ops (bogusInit ops) (take i ?ms) = Inr t
                      \<and> (notCollapsedBy ops (advance t ?O) (drop (Suc i) ?ms)
                          \<longrightarrow> prefix (npos t @ [?O]) (posStack out)))"
    if run: "OptBogusMoves ops vm = Inr out" for out
  proof -
    from run obtain fin where fin: "bogusLoop ops (bogusInit ops) ?ms = Inr fin"
      and out: "out = vm\<lparr>posStack := npos fin\<rparr>"
      by (auto simp: OptBogusMoves_def split: sum.splits)
    have "subseq (npos (bogusInit ops)) []" by (simp add: bogusInit_def)
    from bogusLoop_subseq [OF fin this] have sub: "subseq (npos fin) ?ms" by simp
    have split: "?ms = take i ?ms @ ?O # drop (Suc i) ?ms"
      using assms(1) by (rule id_take_nth_drop)
    have "bogusLoop ops (bogusInit ops) (take i ?ms @ ?O # drop (Suc i) ?ms) = Inr fin"
      using fin split by simp
    then obtain t where t: "bogusLoop ops (bogusInit ops) (take i ?ms) = Inr t"
      and rest: "bogusLoop ops t (?O # drop (Suc i) ?ms) = Inr fin"
      by (auto simp: bogusLoop_append split: sum.splits)
    let ?t1 = "(advance t ?O)\<lparr>npos := npos t @ [?O]\<rparr>"
    from rest have rest1: "bogusLoop ops ?t1 (drop (Suc i) ?ms) = Inr fin"
      by (simp add: bogusStep_opaque [OF assms(2)])
    have keep: "prefix (npos t @ [?O]) (npos fin)"
      if "notCollapsedBy ops (advance t ?O) (drop (Suc i) ?ms)"
    proof -
      from that have "notCollapsedBy ops ?t1 (drop (Suc i) ?ms)"
        by (simp add: notCollapsedBy_npos)
      moreover have "npos ?t1 = npos t @ [?O]" by simp
      ultimately show ?thesis using rest1 by (rule bogusLoop_notCollapsed)
    qed
    from sub t keep out show ?thesis by auto
  qed
  from 1 2 3 4 5 show ?thesis by blast
qed

theorem opaque_moves_witness:
  "posStack (OptLiftSpeed (mkMachine [mkPos moveModeLinear 100 1 0 0,
       mkPos (moveModeOther 0) 100 2 0 0, mkPos moveModeLinear 100 2 5 0])) ! 1
     = mkPos (moveModeOther 0) 100 2 0 0
   \<and> OptBogusMoves exactOps (mkMachine [mkPos moveModeLinear 100 1 0 0,
       mkPos (moveModeOther 0) 100 2 0 0, mkPos moveModeLinear 100 2 5 0])
       = Inr (mkMachine [mkPos moveModeLinear 100 1 0 0,
           mkPos (moveModeOther 0) 100 2 0 0, mkPos moveModeLinear 100 2 5 0])
   \<and> prefix [mkPos moveModeLinear 100 1 0 0, mkPos (moveModeOther 0) 100 2 0 0]
        [mkPos moveModeLinear 100 1 0 0,
           mkPos (moveModeOther 0) 100 2 0 0, mkPos moveModeLinear 100 2 5 0]"
proof -
  let ?vm = "mkMachine [mkPos moveModeLinear 100 1 0 0,
       mkPos (moveModeOther 0) 100 2 0 0, mkPos moveModeLinear 100 2 5 0]"
  have a: "(1::nat) < length (posStack ?vm)"
    by (simp add: mkMachine_def)
  have b: "isOpaque (posStack ?vm ! 1)"
    by (simp add: mkMachine_def isOpaque_def mkPos_def mkState_def)
  have run: "OptBogusMoves exactOps ?vm = Inr ?vm"
    by (simp add: bogus_eval)
  have pre: "bogusLoop exactOps (bogusInit exactOps) (take 1 (posStack ?vm))
      = Inr \<lparr>xstate = 1, ystate = 0, zstate = 0, lastvecX = 1, lastvecY = 0, lastvecZ = 0,
             npos = [mkPos moveModeLinear 100 1 0 0]\<rparr>"
    by (simp add: bogus_eval)
  have nc: "notCollapsedBy exactOps
       (advance \<lparr>xstate = 1, ystate = 0, zstate = 0, lastvecX = 1, lastvecY = 0,
                 lastvecZ = 0, npos = [mkPos moveModeLinear 100 1 0 0]\<rparr> (posStack ?vm ! 1))
       (drop (Suc 1) (posStack ?vm))"
    by (simp add: mkMachine_def isOpaque_def atRunningPos_def advance_def sameVec_def vecEq_def
          vecOf_def exactOps_def unitVec_def mkPos_def mkState_def)
  from opaque_moves [OF a b, of exactOps "bogusInit exactOps"] run pre nc
  have "posStack (OptLiftSpeed ?vm) ! 1
          = (if isLift (posStack ?vm) 1 then setRapid (posStack ?vm ! 1) else posStack ?vm ! 1)"
    and "prefix ([mkPos moveModeLinear 100 1 0 0] @ [posStack ?vm ! 1]) (posStack ?vm)"
    by auto
  then show ?thesis
    using run
    by (simp add: mkMachine_def isLift_def prevX_def prevY_def prevZ_def mkPos_def mkState_def)
qed

lemma three_collapse:
  assumes no: "\<not> isOpaque m1" "\<not> isOpaque m2" "\<not> isOpaque m3"
    and mv: "\<not> atRunningPos (bogusInit ops) m1" "\<not> atRunningPos (advance (bogusInit ops) m1) m2"
            "\<not> atRunningPos (advance (bogusInit ops) m2) m3"
    and v1: "\<not> vecEq ops (floatZero ops, floatZero ops, floatZero ops)
                 (vecOf ops (bogusInit ops) m1)"
    and v2: "vecEq ops (vecOf ops (bogusInit ops) m1) (vecOf ops (advance (bogusInit ops) m1) m2)"
    and v3: "vecEq ops (vecOf ops (bogusInit ops) m1) (vecOf ops (advance (bogusInit ops) m2) m3)"
  shows "OptBogusMoves ops \<lparr>posStack = [m1, m2, m3], tolerance = t\<rparr>
           = Inr \<lparr>posStack = [m3], tolerance = t\<rparr>"
proof -
  let ?s0 = "bogusInit ops"
  let ?w = "vecOf ops ?s0 m1"
  let ?s1 = "(advance ?s0 m1)\<lparr>npos := npos ?s0 @ [m1], lastvecX := fst ?w,
                lastvecY := fst (snd ?w), lastvecZ := snd (snd ?w)\<rparr>"
  let ?s2 = "(advance ?s1 m2)\<lparr>npos := butlast (npos ?s1) @ [m2]\<rparr>"
  let ?s3 = "(advance ?s2 m3)\<lparr>npos := butlast (npos ?s2) @ [m3]\<rparr>"
  have "\<not> sameVec ops ?s0 m1"
    using v1 by (simp add: sameVec_def bogusInit_def)
  then have step1: "bogusStep ops ?s0 m1 = Inr ?s1"
    using no(1) mv(1) by (rule_tac bogusStep_other)
  have a2: "\<not> atRunningPos ?s1 m2"
    using mv(2) by (simp add: atRunningPos_def advance_def)
  have e2: "sameVec ops ?s1 m2"
    using v2 by (simp add: sameVec_def vecOf_def advance_def)
  have step2: "bogusStep ops ?s1 m2 = Inr ?s2"
    using bogusStep_same [OF no(2) a2 e2] by (simp add: advance_def)
  have a3: "\<not> atRunningPos ?s2 m3"
    using mv(3) by (simp add: atRunningPos_def advance_def)
  have e3: "sameVec ops ?s2 m3"
    using v3 by (simp add: sameVec_def vecOf_def advance_def)
  have step3: "bogusStep ops ?s2 m3 = Inr ?s3"
    using bogusStep_same [OF no(3) a3 e3] by (simp add: advance_def)
  have "bogusLoop ops ?s0 [m1, m2, m3] = Inr ?s3"
    by (simp only: bogusLoop.simps step1 step2 step3 sum.case)
  moreover have "npos ?s3 = [m3]"
    by (simp add: advance_def bogusInit_def)
  ultimately show ?thesis by (simp add: OptBogusMoves_def)
qed

text \<open>
  Claim C8, as stated: on an identical unit vector the previously emitted move's target is
  replaced with this move's target. The code overwrites the whole record: a Rapid move to
  \<open>(1, 0, 0)\<close> followed by a Linear move with feedrate 100 to \<open>(2, 0, 0)\<close> leaves the
  Linear move alone in the output, not the Rapid move with its target moved. Both unit
  vectors are \<open>(1, 0, 0)\<close>, exactly.
\<close>

theorem collapse_counterexample:
  "OptBogusMoves exactOps
     (mkMachine [mkPos moveModeRapid 0 1 0 0, mkPos moveModeLinear 100 2 0 0])
     = Inr (mkMachine [mkPos moveModeLinear 100 2 0 0])
   \<and> mkPos moveModeLinear 100 2 0 0 \<noteq> mkPos moveModeRapid 0 2 0 0"
  by (simp add: bogus_eval)

text \<open>
  Claim C8, amended: in \<^verbatim>\<open>OptBogusMoves\<close>, every Rapid or Linear move whose displacement
  from the running position is exactly zero is dropped. When a Rapid or Linear move's unit
  displacement vector is identical (exact floating-point equality) to the recorded unit
  vector, the last record of the output, whatever it is, is replaced as a whole by this
  move (its mode, feedrate and spindle state come with its target) instead of a new record
  being appended; on an output that is still empty, this assignment is an index panic.
  Otherwise the move is appended and its unit vector recorded as current. The running
  position advances in every case. So three Rapid or Linear moves with non-zero
  displacements collapse into the third record when the first unit vector is not identical
  to the initial zero vector and the second and third are identical to the first.
\<close>

theorem collapse_step:
  assumes "\<not> isOpaque m"
  shows "(atRunningPos s m \<longrightarrow> bogusStep ops s m = Inr (advance s m))
       \<and> (\<not> atRunningPos s m \<and> sameVec ops s m \<and> npos s \<noteq> []
            \<longrightarrow> bogusStep ops s m = Inr ((advance s m)\<lparr>npos := butlast (npos s) @ [m]\<rparr>))
       \<and> (\<not> atRunningPos s m \<and> sameVec ops s m \<and> npos s = []
            \<longrightarrow> bogusStep ops s m = Inl IndexOutOfRange)
       \<and> (\<not> atRunningPos s m \<and> \<not> sameVec ops s m
            \<longrightarrow> bogusStep ops s m
                 = Inr ((advance s m)
                     \<lparr>npos := npos s @ [m], lastvecX := fst (vecOf ops s m),
                      lastvecY := fst (snd (vecOf ops s m)),
                      lastvecZ := snd (snd (vecOf ops s m))\<rparr>))
       \<and> (\<forall>m1 m2 m3 t.
             \<not> isOpaque m1 \<and> \<not> isOpaque m2 \<and> \<not> isOpaque m3
             \<and> \<not> atRunningPos (bogusInit ops) m1
             \<and> \<not> atRunningPos (advance (bogusInit ops) m1) m2
             \<and> \<not> atRunningPos (advance (bogusInit ops) m2) m3
             \<and> \<not> vecEq ops (floatZero ops, floatZero ops, floatZero ops)
                    (vecOf ops (bogusInit ops) m1)
             \<and> vecEq ops (vecOf ops (bogusInit ops) m1)
                  (vecOf ops (advance (bogusInit ops) m1) m2)
             \<and> vecEq ops (vecOf ops (bogusInit ops) m1)
                  (vecOf ops (advance (bogusInit ops) m2) m3)
             \<longrightarrow> OptBogusMoves ops \<lparr>posStack = [m1, m2, m3], tolerance = t\<rparr>
                   = Inr \<lparr>posStack = [m3], tolerance = t\<rparr>)"
proof -
  have 1: "atRunningPos s m \<longrightarrow> bogusStep ops s m = Inr (advance s m)"
    using assms by (simp add: bogusStep_zero)
  have 2: "\<not> atRunningPos s m \<and> sameVec ops s m \<and> npos s \<noteq> []
            \<longrightarrow> bogusStep ops s m = Inr ((advance s m)\<lparr>npos := butlast (npos s) @ [m]\<rparr>)"
    using assms by (simp add: bogusStep_same)
  have 3: "\<not> atRunningPos s m \<and> sameVec ops s m \<and> npos s = []
            \<longrightarrow> bogusStep ops s m = Inl IndexOutOfRange"
    using assms by (simp add: bogusStep_same)
  have 4: "\<not> atRunningPos s m \<and> \<not> sameVec ops s m
            \<longrightarrow> bogusStep ops s m
                 = Inr ((advance s m)
                     \<lparr>npos := npos s @ [m], lastvecX := fst (vecOf ops s m),
                      lastvecY := fst (snd (vecOf ops s m)),
                      lastvecZ := snd (snd (vecOf ops s m))\<rparr>)"
    using assms by (simp add: bogusStep_other)
  have 5: "\<forall>m1 m2 m3 t.
             \<not> isOpaque m1 \<and> \<not> isOpaque m2 \<and> \<not> isOpaque m3
             \<and> \<not> atRunningPos (bogusInit ops) m1
             \<and> \<not> atRunningPos (advance (bogusInit ops) m1) m2
             \<and> \<not> atRunningPos (advance (bogusInit ops) m2) m3
             \<and> \<not> vecEq ops (floatZero ops, floatZero ops, floatZero ops)
                    (vecOf ops (bogusInit ops) m1)
             \<and> vecEq ops (vecOf ops (bogusInit ops) m1)
                  (vecOf ops (advance (bogusInit ops) m1) m2)
             \<and> vecEq ops (vecOf ops (bogusInit ops) m1)
                  (vecOf ops (advance (bogusInit ops) m2) m3)
             \<longrightarrow> OptBogusMoves ops \<lparr>posStack = [m1, m2, m3], tolerance = t\<rparr>
                   = Inr \<lparr>posStack = [m3], tolerance = t\<rparr>"
    by (intro allI impI) (elim conjE, rule three_collapse)
  from 1 2 3 4 5 show ?thesis by (intro conjI)
qed

theorem collapse_step_witness:
  "bogusStep exactOps \<lparr>xstate = 1, ystate = 0, zstate = 0, lastvecX = 1, lastvecY = 0,
              lastvecZ = 0, npos = [mkPos moveModeLinear 100 1 0 0]\<rparr>
       (mkPos moveModeLinear 100 2 0 0)
     = Inr \<lparr>xstate = 2, ystate = 0, zstate = 0, lastvecX = 1, lastvecY = 0, lastvecZ = 0,
            npos = [mkPos moveModeLinear 100 2 0 0]\<rparr>
   \<and> OptBogusMoves exactOps
         (mkMachine [mkPos moveModeLinear 100 1 0 0, mkPos moveModeLinear 100 2 0 0,
                     mkPos moveModeLinear 100 3 0 0])
       = Inr (mkMachine [mkPos moveModeLinear 100 3 0 0])"
proof -
  let ?s = "\<lparr>xstate = 1, ystate = 0, zstate = 0, lastvecX = 1::real, lastvecY = 0::real,
              lastvecZ = 0::real, npos = [mkPos moveModeLinear 100 1 0 0]\<rparr>"
  have a: "\<not> isOpaque (mkPos moveModeLinear 100 2 0 0)"
    by (simp add: isOpaque_def mkPos_def mkState_def)
  note w = collapse_step [OF a, of ?s exactOps]
  have h: "\<not> atRunningPos ?s (mkPos moveModeLinear 100 2 0 0)
           \<and> sameVec exactOps ?s (mkPos moveModeLinear 100 2 0 0) \<and> npos ?s \<noteq> []"
    by (simp add: atRunningPos_def sameVec_def vecEq_def vecOf_def exactOps_def unitVec_def
          mkPos_def)
  from w h have step: "bogusStep exactOps ?s (mkPos moveModeLinear 100 2 0 0)
      = Inr ((advance ?s (mkPos moveModeLinear 100 2 0 0))
               \<lparr>npos := butlast (npos ?s) @ [mkPos moveModeLinear 100 2 0 0]\<rparr>)"
    by blast
  have c: "\<not> isOpaque (mkPos moveModeLinear 100 1 0 0)
           \<and> \<not> isOpaque (mkPos moveModeLinear 100 2 0 0)
           \<and> \<not> isOpaque (mkPos moveModeLinear 100 3 0 0)
           \<and> \<not> atRunningPos (bogusInit exactOps) (mkPos moveModeLinear 100 1 0 0)
           \<and> \<not> atRunningPos (advance (bogusInit exactOps) (mkPos moveModeLinear 100 1 0 0))
                 (mkPos moveModeLinear 100 2 0 0)
           \<and> \<not> atRunningPos (advance (bogusInit exactOps) (mkPos moveModeLinear 100 2 0 0))
                 (mkPos moveModeLinear 100 3 0 0)
           \<and> \<not> vecEq exactOps (floatZero exactOps, floatZero exactOps, floatZero exactOps)
                 (vecOf exactOps (bogusInit exactOps) (mkPos moveModeLinear 100 1 0 0))
           \<and> vecEq exactOps (vecOf exactOps (bogusInit exactOps) (mkPos moveModeLinear 100 1 0 0))
               (vecOf exactOps (advance (bogusInit exactOps) (mkPos moveModeLinear 100 1 0 0))
                  (mkPos moveModeLinear 100 2 0 0))
           \<and> vecEq exactOps (vecOf exactOps (bogusInit exactOps) (mkPos moveModeLinear 100 1 0 0))
               (vecOf exactOps (advance (bogusInit exactOps) (mkPos moveModeLinear 100 2 0 0))
                  (mkPos moveModeLinear 100 3 0 0))"
    by (simp add: isOpaque_def atRunningPos_def advance_def vecEq_def vecOf_def bogusInit_def
          exactOps_def unitVec_def mkPos_def mkState_def)
  from w c have three: "OptBogusMoves exactOps
         \<lparr>posStack = [mkPos moveModeLinear 100 1 0 0, mkPos moveModeLinear 100 2 0 0,
                      mkPos moveModeLinear 100 3 0 0], tolerance = 1 / 1000\<rparr>
       = Inr \<lparr>posStack = [mkPos moveModeLinear 100 3 0 0], tolerance = 1 / 1000\<rparr>"
    by blast
  from step three show ?thesis
    by (simp add: advance_def mkMachine_def mkPos_def)
qed

section \<open>Properties of the return to origin and of the safety height\<close>

lemma maxzLoop_Max: "maxzLoop maxz ms = Max (set (maxz # map pz ms))"
proof (induction ms arbitrary: maxz)
  case Nil
  then show ?case by simp
next
  case (Cons m ms)
  have "Max (insert (if maxz < pz m then pz m else maxz) (pz ` set ms))
          = Max (insert maxz (insert (pz m) (pz ` set ms)))"
  proof (cases "set ms = {}")
    case True
    then show ?thesis by (simp add: max_def)
  next
    case False
    then show ?thesis by (auto simp: max_def)
  qed
  with Cons.IH show ?case by simp
qed

text \<open>
  Claim C6, as stated: two Rapid moves are appended when the last move's z equals the
  path's maximum observed z. The running maximum of \<^verbatim>\<open>Return\<close> starts at 0, so on the
  one-move path \<open>(1, 1, -2)\<close> the last z is the path's maximum, and yet three moves are
  appended: up to z = 0, over to the origin, and a third to \<open>(0, 0, 0)\<close>.
\<close>

theorem return_counterexample:
  "pz (last [mkPos moveModeLinear 100 1 1 (-2)]) = pathMax [mkPos moveModeLinear 100 1 1 (-2)]
   \<and> Return (mkMachine [mkPos moveModeLinear 100 1 1 (-2)])
       = Inr (mkMachine [mkPos moveModeLinear 100 1 1 (-2), mkPos moveModeRapid 100 1 1 0,
                         mkPos moveModeRapid 100 0 0 0, mkPos moveModeRapid 100 0 0 0])"
  by (simp add: Return_def pathMax_def setRapid_def mkMachine_def mkPos_def mkState_def Let_def)

text \<open>
  Claim C6, amended: for every non-empty toolpath, \<^verbatim>\<open>Return\<close> appends exactly: nothing
  if the last move is at \<open>(0, 0, 0)\<close>; one Rapid move to \<open>(0, 0, 0)\<close> if it is at
  \<open>(0, 0, z)\<close> with \<open>z \<noteq> 0\<close>; two Rapid moves, \<open>(0, 0, z)\<close> then \<open>(0, 0, 0)\<close>, if its z
  equals the greatest of 0 and all z of the path; otherwise three Rapid moves, \<open>(x, y, M)\<close>,
  \<open>(0, 0, M)\<close>, \<open>(0, 0, 0)\<close>, with \<open>M\<close> the greatest of 0 and all z of the path. The
  appended moves carry the last move's feedrate and spindle state. The result ends at
  \<open>(0, 0, 0)\<close> and the pre-existing records are unchanged.
\<close>

theorem return_appends:
  assumes "posStack vm \<noteq> []"
  shows "Return vm = Inr (vm\<lparr>posStack := posStack vm @ returnMoves (posStack vm)\<rparr>)
         \<and> (\<exists>out. Return vm = Inr out \<and> tolerance out = tolerance vm
                \<and> take (length (posStack vm)) (posStack out) = posStack vm
                \<and> px (last (posStack out)) = 0 \<and> py (last (posStack out)) = 0
                \<and> pz (last (posStack out)) = 0)"
proof -
  have l: "last (posStack vm) = posStack vm ! (length (posStack vm) - 1)"
    using assms by (simp add: last_conv_nth)
  have m: "maxzLoop 0 (posStack vm) = flooredMax (posStack vm)"
    by (simp add: maxzLoop_Max flooredMax_def)
  have 1: "Return vm = Inr (vm\<lparr>posStack := posStack vm @ returnMoves (posStack vm)\<rparr>)"
    using assms
    by (auto simp add: Return_def returnMoves_def rapidAt_def setRapid_def Let_def l m)
  have 2: "px (last (posStack vm @ returnMoves (posStack vm))) = 0
           \<and> py (last (posStack vm @ returnMoves (posStack vm))) = 0
           \<and> pz (last (posStack vm @ returnMoves (posStack vm))) = 0"
    by (simp add: returnMoves_def rapidAt_def setRapid_def Let_def)
  show ?thesis using 1 2 by simp
qed

theorem return_appends_witness:
  "Return (mkMachine [mkPos moveModeLinear 100 10 10 0, mkPos moveModeRapid 0 10 10 5,
                      mkPos moveModeLinear 100 10 10 0])
     = Inr (mkMachine [mkPos moveModeLinear 100 10 10 0, mkPos moveModeRapid 0 10 10 5,
                       mkPos moveModeLinear 100 10 10 0, mkPos moveModeRapid 100 10 10 5,
                       mkPos moveModeRapid 100 0 0 5, mkPos moveModeRapid 100 0 0 0])"
proof -
  have a: "posStack (mkMachine [mkPos moveModeLinear 100 10 10 0, mkPos moveModeRapid 0 10 10 5,
                      mkPos moveModeLinear 100 10 10 0]) \<noteq> []"
    by (simp add: mkMachine_def)
  show ?thesis
    using return_appends [OF a]
    by (simp add: mkMachine_def returnMoves_def flooredMax_def rapidAt_def setRapid_def
          mkPos_def mkState_def)
qed

lemma heightLoop_snoc: "heightLoop acc (ms @ [m]) = heightStep (heightLoop acc ms) m"
  by (induction ms arbitrary: acc) simp_all

lemma heightLoop_char:
  "heightLoop (0, 0) ms = (flooredMax ms, flooredNext ms)"
proof (induction ms rule: rev_induct)
  case Nil
  then show ?case by (simp add: flooredMax_def flooredNext_def)
next
  case (snoc m ms)
  define S where "S = pz ` set ms"
  define M where "M = Max (insert 0 S)"
  define B where "B = {w \<in> S. w < M}"
  have fin: "finite S" by (simp add: S_def)
  have finB: "finite B" by (simp add: B_def fin)
  have M_ge: "\<forall>w \<in> S. w \<le> M" using fin by (simp add: M_def)
  have M0: "0 \<le> M" using fin by (simp add: M_def)
  have M_in: "M \<in> insert 0 S" unfolding M_def using fin by (intro Max_in) auto
  have fm: "flooredMax ms = M" by (simp add: flooredMax_def M_def S_def)
  have fn: "flooredNext ms = Max (insert 0 B)"
    by (simp add: flooredNext_def fm B_def S_def)
  have "Max (insert (pz m) (insert 0 S)) = max (pz m) (Max (insert 0 S))"
    using fin by (subst Max_insert) auto
  then have fm': "flooredMax (ms @ [m]) = max (pz m) M"
    by (simp add: flooredMax_def M_def S_def insert_commute)
  have sm: "set (map pz (ms @ [m])) = insert (pz m) S"
    by (simp add: S_def)
  have fn': "flooredNext (ms @ [m]) = Max (insert 0 {w \<in> insert (pz m) S. w < max (pz m) M})"
    unfolding flooredNext_def fm' list.set(2) set_filter sm ..
  have step: "heightLoop (0, 0) (ms @ [m]) = heightStep (M, Max (insert 0 B)) m"
    using snoc.IH by (simp add: heightLoop_snoc fm fn)
  show ?case
  proof (cases "pz m > M")
    case True
    then have "{w \<in> insert (pz m) S. w < max (pz m) M} = S"
      using M_ge by (auto simp: max_def)
    then have "flooredNext (ms @ [m]) = M"
      using fn' by (simp add: M_def)
    moreover have "heightStep (M, Max (insert 0 B)) m = (pz m, M)"
      using True by (simp add: heightStep_def)
    ultimately show ?thesis using step fm' True by (simp add: max_def)
  next
    case False
    then have mx: "max (pz m) M = M" by (simp add: max_def)
    show ?thesis
    proof (cases "pz m < M")
      case True
      then have seteq: "{w \<in> insert (pz m) S. w < max (pz m) M} = insert (pz m) B"
        by (auto simp: mx B_def)
      have "Max (insert (pz m) (insert 0 B)) = max (pz m) (Max (insert 0 B))"
        using finB by (subst Max_insert) auto
      then have key: "Max (insert 0 (insert (pz m) B)) = max (pz m) (Max (insert 0 B))"
        by (simp only: insert_commute)
      have "flooredNext (ms @ [m]) = max (pz m) (Max (insert 0 B))"
        by (simp only: fn' seteq key)
      moreover have "heightStep (M, Max (insert 0 B)) m
                       = (M, if pz m > Max (insert 0 B) then pz m else Max (insert 0 B))"
        using True by (simp add: heightStep_def)
      ultimately show ?thesis using step fm' mx by (simp add: max_def)
    next
      case False
      with \<open>\<not> pz m > M\<close> have eq: "pz m = M" by simp
      then have "{w \<in> insert (pz m) S. w < max (pz m) M} = B"
        by (auto simp: B_def)
      then have "flooredNext (ms @ [m]) = Max (insert 0 B)"
        using fn' by simp
      moreover have "heightStep (M, Max (insert 0 B)) m = (M, Max (insert 0 B))"
        using eq by (simp add: heightStep_def)
      ultimately show ?thesis using step fm' mx by simp
    qed
  qed
qed

lemma length_applyHeight: "length (applyHeight h mz a b ms) = length ms"
  by (induction ms arbitrary: a b) simp_all

lemma applyHeight_nth:
  "i < length ms \<Longrightarrow>
   applyHeight h mz a b ms ! i =
     (if (if i = 0 then a else px (ms ! (i - 1))) = px (ms ! i)
         \<and> (if i = 0 then b else py (ms ! (i - 1))) = py (ms ! i)
         \<and> pz (ms ! i) = mz
      then (ms ! i)\<lparr>pz := h\<rparr> else ms ! i)"
proof (induction ms arbitrary: a b i)
  case Nil
  then show ?case by simp
next
  case (Cons m ms)
  show ?case
  proof (cases i)
    case 0
    then show ?thesis by simp
  next
    case (Suc j)
    with Cons.prems have j: "j < length ms" by simp
    show ?thesis
      using Cons.IH [OF j, of "px m" "py m"] Suc
      by (cases j) simp_all
  qed
qed

lemma applyHeight_map:
  "applyHeight h (flooredMax ms) 0 0 ms = map (rewriteHeight h ms) [0 ..< length ms]"
  by (rule nth_equalityI)
     (auto simp: length_applyHeight applyHeight_nth rewriteHeight_def prevX_def prevY_def)

text \<open>
  Claim C5, as stated: the error is returned exactly when the requested height does not
  clear the next-highest distinct z value below the path's maximum z. Both running maxima
  of \<^verbatim>\<open>SetSafetyHeight\<close> start at 0: on the path \<open>(0, 0, 0)\<close>, \<open>(0, 0, -3)\<close> the
  next-highest z below the maximum is -3, the requested height -1 clears it, and the call
  fails with a conflict at height 0.
\<close>

theorem safety_height_counterexample:
  "lowerFeedHeight [mkPos moveModeRapid 0 0 0 0, mkPos moveModeLinear 100 0 0 (-3)] = -3
   \<and> SetSafetyHeight (-1) (mkMachine [mkPos moveModeRapid 0 0 0 0, mkPos moveModeLinear 100 0 0 (-3)])
       = (Some (SafetyHeightConflict 0),
          mkMachine [mkPos moveModeRapid 0 0 0 0, mkPos moveModeLinear 100 0 0 (-3)])"
  by (simp add: lowerFeedHeight_def pathMax_def SetSafetyHeight_def heightStep_def
        mkMachine_def mkPos_def mkState_def)

text \<open>
  Claim C5, amended: let \<open>M\<close> be the greatest of 0 and all z of the path and \<open>N\<close> the
  greatest of 0 and all z of the path strictly below \<open>M\<close>. \<^verbatim>\<open>SetSafetyHeight(height)\<close>
  returns the conflict error, naming \<open>N\<close>, exactly when \<open>height \<le> N\<close>, and then leaves the
  machine as it was. Otherwise it succeeds, every record whose x and y equal the prior
  record's (the origin for the first record) and whose z equals \<open>M\<close> is rewritten to the new
  height, and all other records are unchanged.
\<close>

theorem safety_height:
  "SetSafetyHeight height vm =
     (if height \<le> flooredNext (posStack vm)
      then (Some (SafetyHeightConflict (flooredNext (posStack vm))), vm)
      else (None, vm\<lparr>posStack := map (rewriteHeight height (posStack vm))
                                       [0 ..< length (posStack vm)]\<rparr>))"
proof -
  have scan: "heightLoop (0, 0) (posStack vm)
                = (flooredMax (posStack vm), flooredNext (posStack vm))"
    by (rule heightLoop_char)
  show ?thesis
  proof (cases "height \<le> flooredNext (posStack vm)")
    case True
    then show ?thesis by (simp add: SetSafetyHeight_def scan)
  next
    case False
    have "applyHeight height (flooredMax (posStack vm)) 0 0 (posStack vm)
            = map (rewriteHeight height (posStack vm)) [0 ..< length (posStack vm)]"
      by (rule applyHeight_map)
    with False show ?thesis by (simp add: SetSafetyHeight_def scan)
  qed
qed

theorem safety_height_witness:
  "SetSafetyHeight 3 (mkMachine [mkPos moveModeRapid 0 0 0 5, mkPos moveModeRapid 0 1 0 5,
                                 mkPos moveModeLinear 100 1 0 2, mkPos moveModeRapid 0 1 0 5])
     = (None, mkMachine [mkPos moveModeRapid 0 0 0 3, mkPos moveModeRapid 0 1 0 5,
                         mkPos moveModeLinear 100 1 0 2, mkPos moveModeRapid 0 1 0 3])
   \<and> SetSafetyHeight (3 / 2) (mkMachine [mkPos moveModeRapid 0 0 0 5, mkPos moveModeRapid 0 1 0 5,
                                 mkPos moveModeLinear 100 1 0 2, mkPos moveModeRapid 0 1 0 5])
     = (Some (SafetyHeightConflict 2),
        mkMachine [mkPos moveModeRapid 0 0 0 5, mkPos moveModeRapid 0 1 0 5,
                   mkPos moveModeLinear 100 1 0 2, mkPos moveModeRapid 0 1 0 5])"
  using safety_height [of 3 "mkMachine [mkPos moveModeRapid 0 0 0 5, mkPos moveModeRapid 0 1 0 5,
                                 mkPos moveModeLinear 100 1 0 2, mkPos moveModeRapid 0 1 0 5]"]
        safety_height [of "3 / 2" "mkMachine [mkPos moveModeRapid 0 0 0 5, mkPos moveModeRapid 0 1 0 5,
                                 mkPos moveModeLinear 100 1 0 2, mkPos moveModeRapid 0 1 0 5]"]
  by (simp add: flooredNext_def flooredMax_def rewriteHeight_def prevX_def prevY_def
        mkMachine_def mkPos_def mkState_def upt_rec)

section \<open>Properties of drill-speed memoisation\<close>

lemma drillScan_char:
  "drillScan pos (d0, f0) hs =
     (Min (insert d0 (set (map pz (filter (\<lambda>h. px h = px pos \<and> py h = py pos) hs)))),
      f0 \<or> list_ex (\<lambda>z. z < d0) (map pz (filter (\<lambda>h. px h = px pos \<and> py h = py pos) hs)))"
proof (induction hs arbitrary: d0 f0)
  case Nil
  then show ?case by simp
next
  case (Cons h hs)
  define zs where "zs = map pz (filter (\<lambda>h. px h = px pos \<and> py h = py pos) hs)"
  define Z where "Z = set zs"
  have fin: "finite Z" by (simp add: Z_def)
  have ih: "drillScan pos (d, f) hs = (Min (insert d Z), f \<or> list_ex (\<lambda>z. z < d) zs)" for d f
    using Cons.IH [of d f] by (simp add: Z_def zs_def)
  show ?case
  proof (cases "px h = px pos \<and> py h = py pos")
    case False
    then have "drillScan pos (d0, f0) (h # hs) = drillScan pos (d0, f0) hs"
      by (auto simp: drillScanStep_def)
    moreover have "map pz (filter (\<lambda>h. px h = px pos \<and> py h = py pos) (h # hs)) = zs"
      using False by (auto simp: zs_def)
    ultimately show ?thesis using ih [of d0 f0] by (simp only: Z_def)
  next
    case same: True
    have filt: "map pz (filter (\<lambda>h. px h = px pos \<and> py h = py pos) (h # hs)) = pz h # zs"
      using same by (simp add: zs_def)
    have set': "set (pz h # zs) = insert (pz h) Z" by (simp add: Z_def)
    show ?thesis
    proof (cases "pz h < d0")
      case True
      have step: "drillScan pos (d0, f0) (h # hs) = drillScan pos (pz h, True) hs"
        using same True by (simp add: drillScanStep_def)
      have "Min (insert d0 (insert (pz h) Z)) = min d0 (Min (insert (pz h) Z))"
        using fin by (subst Min_insert) auto
      moreover have "Min (insert (pz h) Z) \<le> pz h"
        using fin by (intro Min_le) auto
      ultimately have m: "Min (insert d0 (insert (pz h) Z)) = Min (insert (pz h) Z)"
        using True by linarith
      have ex: "list_ex (\<lambda>z. z < d0) (pz h # zs)" using True by simp
      show ?thesis
        unfolding step ih filt set' m using ex by simp
    next
      case False
      have step: "drillScan pos (d0, f0) (h # hs) = drillScan pos (d0, f0) hs"
        using same False by (simp add: drillScanStep_def)
      have "Min (insert (pz h) (insert d0 Z)) = min (pz h) (Min (insert d0 Z))"
        using fin by (subst Min_insert) auto
      moreover have "Min (insert d0 Z) \<le> d0"
        using fin by (intro Min_le) auto
      ultimately have "Min (insert (pz h) (insert d0 Z)) = Min (insert d0 Z)"
        using False by linarith
      then have m: "Min (insert d0 (insert (pz h) Z)) = Min (insert d0 Z)"
        by (simp only: insert_commute)
      have ex: "list_ex (\<lambda>z. z < d0) (pz h # zs) = list_ex (\<lambda>z. z < d0) zs"
        using False by simp
      show ?thesis
        unfolding step ih filt set' m ex ..
    qed
  qed
qed

lemma fastDrill_chunk:
  assumes "qualifies ms i"
  shows "fastDrill (history ms i) (ms ! i)
           = (history ms i @ [ms ! i],
              (case recordedDepth ms i of
                 None \<Rightarrow> ms ! i
               | Some d \<Rightarrow> if pz (ms ! i) \<ge> d then setRapid (ms ! i)
                           else setRapid ((ms ! i)\<lparr>pz := d\<rparr>)),
              (case recordedDepth ms i of
                 None \<Rightarrow> ms ! i
               | Some d \<Rightarrow> if pz (ms ! i) \<ge> d then setRapid (ms ! i) else ms ! i),
              (case recordedDepth ms i of
                 None \<Rightarrow> False
               | Some d \<Rightarrow> \<not> pz (ms ! i) \<ge> d))"
proof -
  define Z where "Z = depthsAt ms i"
  have scan: "drillScan (ms ! i) (0, False) (history ms i)
                = (Min (insert 0 (set Z)), list_ex (\<lambda>z. z < 0) Z)"
    by (simp add: drillScan_char Z_def depthsAt_def)
  show ?thesis
  proof (cases "list_ex (\<lambda>z. z < 0) Z")
    case False
    then show ?thesis
      by (simp add: fastDrill_def scan recordedDepth_def Z_def [symmetric])
  next
    case True
    then obtain z where z: "z \<in> set Z" "z < 0"
      by (auto simp: list_ex_iff)
    then have le: "Min (set Z) \<le> z" by simp
    have ne: "set Z \<noteq> {}" using z by auto
    have neg: "Min (set Z) < 0" using le z(2) by (rule le_less_trans)
    have "Min (insert 0 (set Z)) = min 0 (Min (set Z))"
      using ne by (subst Min_insert) auto
    with neg have "Min (insert 0 (set Z)) = Min (set Z)" by (simp add: min_def)
    with True show ?thesis
      by (simp add: fastDrill_def scan recordedDepth_def Z_def [symmetric])
  qed
qed

lemma history_Suc:
  "history ms (Suc n) = history ms n @ (if qualifies ms n then [ms ! n] else [])"
  by (simp add: history_def)

lemma drillLoop_qualifying:
  assumes "px m = lastx \<and> py m = lasty \<and> pz m < lastz \<and> moveMode (state m) = moveModeLinear"
    and "fastDrill drillStack m = (drillStack', posn, poso, shouldinsert)"
  shows "drillLoop lastx lasty lastz drillStack out (m # ms)
           = drillLoop (px m) (py m) (pz m) drillStack'
               (out @ (if shouldinsert then [posn] else []) @ [poso]) ms"
  using assms by simp

lemma drillLoop_other:
  assumes "\<not> (px m = lastx \<and> py m = lasty \<and> pz m < lastz
              \<and> moveMode (state m) = moveModeLinear)"
  shows "drillLoop lastx lasty lastz drillStack out (m # ms)
           = drillLoop (px m) (py m) (pz m) drillStack (out @ [m]) ms"
  using assms by auto

lemma drillLoop_chunks:
  "n \<le> length full \<Longrightarrow>
   drillLoop (prevX full n) (prevY full n) (prevZ full n) (history full n) out (drop n full)
     = out @ concat (map (drillChunk full) [n ..< length full])"
proof (induction "length full - n" arbitrary: n out)
  case 0
  then show ?case by simp
next
  case (Suc k)
  then have n: "n < length full" and k: "k = length full - Suc n" and le: "Suc n \<le> length full"
    by simp_all
  have d: "drop n full = full ! n # drop (Suc n) full"
    using n by (simp add: Cons_nth_drop_Suc)
  have p: "px (full ! n) = prevX full (Suc n)" "py (full ! n) = prevY full (Suc n)"
          "pz (full ! n) = prevZ full (Suc n)"
    by (simp_all add: prevX_def prevY_def prevZ_def)
  have u: "[n ..< length full] = n # [Suc n ..< length full]"
    using n by (simp add: upt_conv_Cons)
  show ?case
  proof (cases "qualifies full n")
    case True
    then have c: "px (full ! n) = prevX full n \<and> py (full ! n) = prevY full n
                  \<and> pz (full ! n) < prevZ full n \<and> moveMode (state (full ! n)) = moveModeLinear"
      by (simp add: qualifies_def)
    have h: "history full n @ [full ! n] = history full (Suc n)"
      using True by (simp add: history_Suc)
    obtain posn poso ins where f: "fastDrill (history full n) (full ! n)
        = (history full n @ [full ! n], posn, poso, ins)"
      and ch: "(if ins then [posn] else []) @ [poso] = drillChunk full n"
      using True by (simp add: fastDrill_chunk drillChunk_def split: option.splits)
    have "drillLoop (prevX full n) (prevY full n) (prevZ full n) (history full n) out
            (drop n full)
          = drillLoop (prevX full (Suc n)) (prevY full (Suc n)) (prevZ full (Suc n))
              (history full (Suc n)) (out @ drillChunk full n) (drop (Suc n) full)"
      unfolding d drillLoop_qualifying [OF c f] ch h p ..
    also have "\<dots> = (out @ drillChunk full n)
                       @ concat (map (drillChunk full) [Suc n ..< length full])"
      by (rule Suc.hyps(1) [OF k le])
    finally show ?thesis by (simp add: u)
  next
    case False
    then have c: "\<not> (px (full ! n) = prevX full n \<and> py (full ! n) = prevY full n
                  \<and> pz (full ! n) < prevZ full n \<and> moveMode (state (full ! n)) = moveModeLinear)"
      by (simp add: qualifies_def)
    have h: "history full n = history full (Suc n)"
      using False by (simp add: history_Suc)
    have ch: "[full ! n] = drillChunk full n"
      using False by (simp add: drillChunk_def)
    have "drillLoop (prevX full n) (prevY full n) (prevZ full n) (history full n) out
            (drop n full)
          = drillLoop (prevX full (Suc n)) (prevY full (Suc n)) (prevZ full (Suc n))
              (history full n) (out @ [full ! n]) (drop (Suc n) full)"
      unfolding d drillLoop_other [OF c] p ..
    also have "\<dots> = drillLoop (prevX full (Suc n)) (prevY full (Suc n)) (prevZ full (Suc n))
              (history full (Suc n)) (out @ drillChunk full n) (drop (Suc n) full)"
      using h ch by simp
    also have "\<dots> = (out @ drillChunk full n)
                       @ concat (map (drillChunk full) [Suc n ..< length full])"
      by (rule Suc.hyps(1) [OF k le])
    finally show ?thesis by (simp add: u)
  qed
qed

lemma OptDrillSpeed_chunks:
  "posStack (OptDrillSpeed vm)
     = concat (map (drillChunk (posStack vm)) [0 ..< length (posStack vm)])"
  using drillLoop_chunks [of 0 "posStack vm" "[]"]
  by (simp add: OptDrillSpeed_def prevX_def prevY_def prevZ_def history_def)

lemma recordedDepth_iff:
  "recordedDepth ms i = Some d
     \<longleftrightarrow> d < 0 \<and> d \<in> set (depthsAt ms i) \<and> (\<forall>z \<in> set (depthsAt ms i). d \<le> z)"
proof -
  define Z where "Z = depthsAt ms i"
  show ?thesis
  proof (cases "list_ex (\<lambda>z. z < 0) Z")
    case False
    then have "\<forall>z \<in> set Z. \<not> z < 0" by (simp add: list_ex_iff)
    then have "\<not> (d < 0 \<and> d \<in> set Z \<and> (\<forall>z \<in> set Z. d \<le> z))" by blast
    moreover have "recordedDepth ms i = None"
      using False by (simp add: recordedDepth_def Z_def)
    ultimately show ?thesis by (simp add: Z_def)
  next
    case True
    then obtain z where z: "z \<in> set Z" "z < 0" by (auto simp: list_ex_iff)
    have ne: "set Z \<noteq> {}" using z by auto
    have rd: "recordedDepth ms i = Some (Min (set Z))"
      using True by (simp add: recordedDepth_def Z_def)
    have min_in: "Min (set Z) \<in> set Z" using ne by (intro Min_in) auto
    have min_le: "\<forall>w \<in> set Z. Min (set Z) \<le> w" by simp
    have "Min (set Z) \<le> z" using min_le z(1) by blast
    then have min_neg: "Min (set Z) < 0" using z(2) by (rule le_less_trans)
    show ?thesis
    proof
      assume "recordedDepth ms i = Some d"
      with rd have "d = Min (set Z)" by simp
      with min_in min_le min_neg
      show "d < 0 \<and> d \<in> set (depthsAt ms i) \<and> (\<forall>z \<in> set (depthsAt ms i). d \<le> z)"
        by (simp add: Z_def)
    next
      assume a: "d < 0 \<and> d \<in> set (depthsAt ms i) \<and> (\<forall>z \<in> set (depthsAt ms i). d \<le> z)"
      then have "Min (set Z) = d"
        by (intro Min_eqI) (auto simp: Z_def)
      with rd show "recordedDepth ms i = Some d" by simp
    qed
  qed
qed

text \<open>
  Claim C4: the output of \<^verbatim>\<open>OptDrillSpeed\<close> is the concatenation, in the original order,
  of what is emitted for each move. For a qualifying move whose location has a recorded
  minimum depth \<open>d\<close> (the least depth of the earlier qualifying moves there, recorded once
  one of them is below 0): if the move's z is at or above \<open>d\<close>, the move itself with mode
  Rapid; if it is below \<open>d\<close>, a Rapid copy of the move at depth \<open>d\<close> followed by the
  original move, unchanged. A non-qualifying move is emitted unchanged.
\<close>

theorem drill_memo:
  assumes "i < length (posStack vm)"
  shows "posStack (OptDrillSpeed vm)
           = concat (map (drillChunk (posStack vm)) [0 ..< length (posStack vm)])
       \<and> tolerance (OptDrillSpeed vm) = tolerance vm
       \<and> (qualifies (posStack vm) i \<and> recordedDepth (posStack vm) i = Some d
            \<and> pz (posStack vm ! i) \<ge> d
            \<longrightarrow> drillChunk (posStack vm) i = [setRapid (posStack vm ! i)])
       \<and> (qualifies (posStack vm) i \<and> recordedDepth (posStack vm) i = Some d
            \<and> pz (posStack vm ! i) < d
            \<longrightarrow> drillChunk (posStack vm) i
                 = [setRapid ((posStack vm ! i)\<lparr>pz := d\<rparr>), posStack vm ! i])
       \<and> (\<not> qualifies (posStack vm) i \<longrightarrow> drillChunk (posStack vm) i = [posStack vm ! i])
       \<and> (recordedDepth (posStack vm) i = Some d
            \<longleftrightarrow> d < 0 \<and> d \<in> set (depthsAt (posStack vm) i)
                \<and> (\<forall>z \<in> set (depthsAt (posStack vm) i). d \<le> z))"
proof -
  have out: "posStack (OptDrillSpeed vm)
               = concat (map (drillChunk (posStack vm)) [0 ..< length (posStack vm)])"
    by (rule OptDrillSpeed_chunks)
  have tol: "tolerance (OptDrillSpeed vm) = tolerance vm"
    by (simp add: OptDrillSpeed_def)
  have rapid: "qualifies (posStack vm) i \<and> recordedDepth (posStack vm) i = Some d
                 \<and> pz (posStack vm ! i) \<ge> d
               \<longrightarrow> drillChunk (posStack vm) i = [setRapid (posStack vm ! i)]"
    by (simp add: drillChunk_def)
  have split: "qualifies (posStack vm) i \<and> recordedDepth (posStack vm) i = Some d
                 \<and> pz (posStack vm ! i) < d
               \<longrightarrow> drillChunk (posStack vm) i
                    = [setRapid ((posStack vm ! i)\<lparr>pz := d\<rparr>), posStack vm ! i]"
    by (simp add: drillChunk_def)
  have other: "\<not> qualifies (posStack vm) i \<longrightarrow> drillChunk (posStack vm) i = [posStack vm ! i]"
    by (simp add: drillChunk_def)
  have depth: "recordedDepth (posStack vm) i = Some d
                 \<longleftrightarrow> d < 0 \<and> d \<in> set (depthsAt (posStack vm) i)
                     \<and> (\<forall>z \<in> set (depthsAt (posStack vm) i). d \<le> z)"
    by (rule recordedDepth_iff)
  from out tol rapid split other depth show ?thesis by (intro conjI)
qed

lemmas drill_eval =
  drillChunk_def qualifies_def recordedDepth_def depthsAt_def history_def
  prevX_def prevY_def prevZ_def setRapid_def mkMachine_def mkPos_def mkState_def

theorem drill_memo_witness:
  "qualifies drillExample 4 \<and> recordedDepth drillExample 4 = Some (-10)
   \<and> drillChunk drillExample 4 = [mkPos moveModeRapid 100 0 0 (-5)]
   \<and> posStack (OptDrillSpeed (mkMachine drillExample))
       = [mkPos moveModeRapid 0 0 0 0, mkPos moveModeRapid 0 0 0 5,
          mkPos moveModeLinear 100 0 0 (-10), mkPos moveModeRapid 0 0 0 5,
          mkPos moveModeRapid 100 0 0 (-5), mkPos moveModeRapid 0 0 0 5,
          mkPos moveModeRapid 100 0 0 (-10), mkPos moveModeLinear 100 0 0 (-15)]"
proof -
  have a: "4 < length (posStack (mkMachine drillExample))"
    by (simp add: mkMachine_def drillExample_def)
  have q: "qualifies drillExample 4"
    by (simp add: drill_eval drillExample_def)
  have u: "[0 ..< 4] = [0, 1, 2, 3]" "[0 ..< 7] = [0, 1, 2, 3, 4, 5, 6]"
    by (simp_all add: upt_rec)
  have r: "recordedDepth drillExample 4 = Some (-10)"
    by (simp add: drill_eval drillExample_def u)
  show ?thesis
    using drill_memo [OF a, of "-10"] q r
    by (simp add: drill_eval drillExample_def upt_rec)
qed

lemma concat_chunks_split:
  assumes "i < n"
  shows "concat (map f [0 ..< n]) = concat (map f [0 ..< i]) @ f i @ concat (map f [Suc i ..< n])"
proof -
  have "[0 ..< n] = [0 ..< i] @ i # [Suc i ..< n]"
    using assms by (metis less_imp_le_nat upt_add_eq_append upt_conv_Cons le0 add_0 le_add_diff_inverse)
  then show ?thesis by simp
qed

text \<open>
  Claim C10: a qualifying move at a location whose recorded history holds only
  non-negative depths is left unchanged, neither converted nor split. The scan of the
  drill stack starts from depth 0 with nothing found and ends there, so \<^verbatim>\<open>fastDrill\<close>
  returns the move as it is and asks for no insertion.
\<close>

theorem drill_shallow_history:
  assumes "i < length (posStack vm)"
    and "qualifies (posStack vm) i"
    and "\<forall>h \<in> set (history (posStack vm) i).
           px h = px (posStack vm ! i) \<and> py h = py (posStack vm ! i) \<longrightarrow> pz h \<ge> 0"
  shows "drillScan (posStack vm ! i) (0, False) (history (posStack vm) i) = (0, False)
       \<and> fastDrill (history (posStack vm) i) (posStack vm ! i)
           = (history (posStack vm) i @ [posStack vm ! i], posStack vm ! i, posStack vm ! i, False)
       \<and> posStack (OptDrillSpeed vm)
           = concat (map (drillChunk (posStack vm)) [0 ..< i]) @ [posStack vm ! i]
               @ concat (map (drillChunk (posStack vm)) [Suc i ..< length (posStack vm)])"
proof -
  define Z where "Z = depthsAt (posStack vm) i"
  have nonneg: "\<forall>z \<in> set Z. 0 \<le> z"
    using assms(3) by (auto simp: Z_def depthsAt_def)
  then have nex: "\<not> list_ex (\<lambda>z. z < 0) Z"
    by (auto simp: list_ex_iff)
  have "Min (insert 0 (set Z)) = 0"
    using nonneg by (intro Min_eqI) auto
  then have scan: "drillScan (posStack vm ! i) (0, False) (history (posStack vm) i) = (0, False)"
    using nex by (simp add: drillScan_char Z_def depthsAt_def)
  have none: "recordedDepth (posStack vm) i = None"
    using nex by (simp add: recordedDepth_def Z_def)
  have fd: "fastDrill (history (posStack vm) i) (posStack vm ! i)
           = (history (posStack vm) i @ [posStack vm ! i], posStack vm ! i, posStack vm ! i, False)"
    by (simp add: fastDrill_chunk [OF assms(2)] none)
  have ch: "drillChunk (posStack vm) i = [posStack vm ! i]"
    using assms(2) none by (simp add: drillChunk_def)
  have "posStack (OptDrillSpeed vm)
           = concat (map (drillChunk (posStack vm)) [0 ..< i]) @ drillChunk (posStack vm) i
               @ concat (map (drillChunk (posStack vm)) [Suc i ..< length (posStack vm)])"
    unfolding OptDrillSpeed_chunks by (rule concat_chunks_split [OF assms(1)])
  with scan fd ch show ?thesis by simp
qed

theorem drill_shallow_history_witness:
  "qualifies shallowExample 4 \<and> history shallowExample 4 = [mkPos moveModeLinear 100 0 0 2]
   \<and> posStack (OptDrillSpeed (mkMachine shallowExample)) = shallowExample"
proof -
  have a: "4 < length (posStack (mkMachine shallowExample))"
    by (simp add: mkMachine_def shallowExample_def)
  have u: "[0 ..< 4] = [0, 1, 2, 3]"
    by (simp add: upt_rec)
  have h: "history shallowExample 4 = [mkPos moveModeLinear 100 0 0 2]"
    by (simp add: drill_eval shallowExample_def u)
  have q: "qualifies (posStack (mkMachine shallowExample)) 4"
    by (simp add: drill_eval shallowExample_def)
  have b: "\<forall>h \<in> set (history (posStack (mkMachine shallowExample)) 4).
           px h = px (posStack (mkMachine shallowExample) ! 4)
           \<and> py h = py (posStack (mkMachine shallowExample) ! 4) \<longrightarrow> pz h \<ge> 0"
    using h by (simp add: mkMachine_def mkPos_def)
  show ?thesis
    using drill_shallow_history [OF a q b] h q
    by (simp add: drill_eval shallowExample_def u)
qed

section \<open>Properties of route grouping\<close>

lemmas route_eval =
  OptRouteGrouping_def routeGrouping_def groupInit_def groupStep_def regularMove_def
  updateLast_def finalSetCheck_def diffFromCur_def firstOf_def moveTo_def addSet_def
  setRapid_def mkMachine_def mkPos_def mkState_def feedExample_def sortLoop.simps

lemma firstOf_range:
  "firstOf ss sel = Inr p \<Longrightarrow> 0 \<le> sel \<and> nat sel < length ss"
  by (auto simp: firstOf_def split: if_splits)

lemma mset_remove_nth:
  assumes "n < length ss"
  shows "mset (take n ss @ drop (n + 1) ss) + {#ss ! n#} = mset ss"
proof -
  have "ss = take n ss @ ss ! n # drop (Suc n) ss"
    using assms by (rule id_take_nth_drop)
  then have "mset ss = mset (take n ss @ ss ! n # drop (Suc n) ss)"
    by simp
  then show ?thesis by simp
qed

lemma sortLoop_mset:
  "sortLoop cur ss sortedSets selectedSet = Inr out \<Longrightarrow> mset out = mset sortedSets + mset ss"
proof (induction cur ss sortedSets selectedSet rule: sortLoop.induct)
  case (1 cur ss sortedSets selectedSet)
  show ?case
  proof (cases "length ss > 0")
    case False
    with "1.prems" show ?thesis by (subst (asm) sortLoop.simps) simp
  next
    case True
    from "1.prems" True obtain sel where
      sel: "selectLoop cur ss [0 ..< length ss] selectedSet = Inr sel"
      by (subst (asm) sortLoop.simps) (auto split: sum.splits)
    from "1.prems" True sel obtain p where
      p: "firstOf ss sel = Inr p"
      by (subst (asm) sortLoop.simps) (auto split: sum.splits)
    have rec: "sortLoop (px p, py p, pz p) (take (nat sel) ss @ drop (nat sel + 1) ss)
                 (sortedSets @ [ss ! nat sel]) (-1) = Inr out"
      using "1.prems" True sel p by (subst (asm) sortLoop.simps) simp
    have n: "nat sel < length ss" using firstOf_range [OF p] by simp
    have "mset out = mset (sortedSets @ [ss ! nat sel])
                       + mset (take (nat sel) ss @ drop (nat sel + 1) ss)"
      using "1.IH" [OF True sel p rec] .
    also have "\<dots> = mset sortedSets + (mset (take (nat sel) ss @ drop (nat sel + 1) ss)
                                         + {#ss ! nat sel#})"
      by simp
    also have "\<dots> = mset sortedSets + mset ss"
      by (simp only: mset_remove_nth [OF n])
    finally show ?thesis .
  qed
qed

lemma moveTo_appends:
  assumes "moveTo tol sh ds newPos pos = Inr np"
  shows "\<exists>t. np = newPos @ t \<and> length t \<le> 3"
proof -
  have ne: "newPos \<noteq> []" using assms by (auto simp: moveTo_def split: if_splits)
  show ?thesis
  proof (cases "\<bar>px (newPos ! (length newPos - 1)) - px pos\<bar> < tol
                \<and> \<bar>py (newPos ! (length newPos - 1)) - py pos\<bar> < tol")
    case True
    then show ?thesis
      using assms ne by (auto simp: moveTo_def Let_def split: if_splits)
  next
    case False
    then have "np = newPos @ [setRapid ((newPos ! (length newPos - 1))\<lparr>pz := sh\<rparr>),
                 (setRapid ((newPos ! (length newPos - 1))\<lparr>pz := sh\<rparr>))\<lparr>px := px pos, py := py pos\<rparr>,
                 (setRapid ((newPos ! (length newPos - 1))\<lparr>pz := sh\<rparr>))\<lparr>px := px pos, py := py pos,
                    pz := pz pos,
                    state := (state ((setRapid ((newPos ! (length newPos - 1))\<lparr>pz := sh\<rparr>))
                                      \<lparr>px := px pos, py := py pos\<rparr>))
                               \<lparr>moveMode := moveModeLinear, feedrate := ds\<rparr>\<rparr>]"
      using assms ne by (auto simp: moveTo_def Let_def split: if_splits)
    then show ?thesis by simp
  qed
qed

lemma addSet_appends:
  assumes "addSet tol sh ds newPos m = Inr np"
  shows "\<exists>t. np = newPos @ t @ tl m \<and> length t \<le> 3"
proof (cases m)
  case Nil
  with assms show ?thesis by (simp add: addSet_def)
next
  case (Cons p ps)
  with assms obtain np1 where np1: "moveTo tol sh ds newPos p = Inr np1" "np = np1 @ ps"
    by (auto simp: addSet_def split: sum.splits)
  from moveTo_appends [OF np1(1)] obtain t where "np1 = newPos @ t" "length t \<le> 3" by blast
  with np1(2) Cons show ?thesis by simp
qed

lemma rebuildLoop_shape:
  "rebuildLoop tol sh ds newPos ms = Inr np \<Longrightarrow>
   \<exists>ts. length ts = length ms \<and> (\<forall>t \<in> set ts. length t \<le> 3)
        \<and> np = newPos @ concat (map (\<lambda>(t, g). t @ tl g) (zip ts ms))"
proof (induction ms arbitrary: newPos)
  case Nil
  then show ?case by simp
next
  case (Cons m ms)
  from Cons.prems obtain np1 where
    np1: "addSet tol sh ds newPos m = Inr np1" "rebuildLoop tol sh ds np1 ms = Inr np"
    by (auto split: sum.splits)
  from addSet_appends [OF np1(1)] obtain t where t: "np1 = newPos @ t @ tl m" "length t \<le> 3"
    by blast
  from Cons.IH [OF np1(2)] obtain ts where
    ts: "length ts = length ms" "\<forall>t \<in> set ts. length t \<le> 3"
        "np = np1 @ concat (map (\<lambda>(t, g). t @ tl g) (zip ts ms))"
    by blast
  show ?case
  proof (intro exI conjI)
    show "length (t # ts) = length (m # ms)" using ts(1) by simp
    show "\<forall>t \<in> set (t # ts). length t \<le> 3" using ts(2) t(2) by simp
    show "np = newPos @ concat (map (\<lambda>(t, g). t @ tl g) (zip (t # ts) (m # ms)))"
      using ts(3) t(1) by simp
  qed
qed



lemma routeGrouping_success:
  assumes "routeGrouping vm = Inr np"
  shows "\<exists>s sortedSets p0 rest.
           groupLoop groupInit (posStack vm) = Inr s
           \<and> finalSetCheck s = Inr ()
           \<and> sortLoop (0, 0, 0) (sets s) [] 0 = Inr sortedSets
           \<and> posStack vm = p0 # rest
           \<and> rebuildLoop (tolerance vm) (safetyHeight s) (drillSpeed s) [p0] sortedSets = Inr np"
  using assms
  by (auto simp: routeGrouping_def split: sum.splits list.splits)

lemma routeGrouping_shape:
  assumes "routeGrouping vm = Inr np"
  shows "posStack vm \<noteq> []
         \<and> (\<exists>sortedSets ts.
               mset sortedSets = mset (groupsOf (posStack vm))
               \<and> length ts = length sortedSets \<and> (\<forall>t \<in> set ts. length t \<le> 3)
               \<and> np = hd (posStack vm) # concat (map (\<lambda>(t, g). t @ tl g) (zip ts sortedSets)))"
proof -
  from routeGrouping_success [OF assms] obtain s sortedSets p0 rest where
    s: "groupLoop groupInit (posStack vm) = Inr s"
    and sorted: "sortLoop (0, 0, 0) (sets s) [] 0 = Inr sortedSets"
    and p0: "posStack vm = p0 # rest"
    and rb: "rebuildLoop (tolerance vm) (safetyHeight s) (drillSpeed s) [p0] sortedSets = Inr np"
    by blast
  have g: "groupsOf (posStack vm) = sets s" using s by (simp add: groupsOf_def)
  have m: "mset sortedSets = mset (groupsOf (posStack vm))"
    using sortLoop_mset [OF sorted] g by simp
  from rebuildLoop_shape [OF rb] obtain ts where
    ts: "length ts = length sortedSets" "\<forall>t \<in> set ts. length t \<le> 3"
        "np = [p0] @ concat (map (\<lambda>(t, g). t @ tl g) (zip ts sortedSets))"
    by blast
  from ts(3) p0 have np: "np = hd (posStack vm) # concat (map (\<lambda>(t, g). t @ tl g) (zip ts sortedSets))"
    by simp
  have "\<exists>sortedSets ts.
               mset sortedSets = mset (groupsOf (posStack vm))
               \<and> length ts = length sortedSets \<and> (\<forall>t \<in> set ts. length t \<le> 3)
               \<and> np = hd (posStack vm) # concat (map (\<lambda>(t, g). t @ tl g) (zip ts sortedSets))"
    using m ts(1,2) np by (intro exI [of _ sortedSets] exI [of _ ts]) simp
  moreover have "posStack vm \<noteq> []" using p0 by simp
  ultimately show ?thesis by simp
qed

lemma feedExample_descending:
  "OptRouteGrouping (mkMachine (feedExample 150 100))
     = (None, mkMachine [mkPos moveModeRapid 0 0 0 0, mkPos moveModeLinear 150 0 0 (-1),
          mkPos moveModeLinear 150 0 0 (-1), mkPos moveModeRapid 150 0 0 5,
          mkPos moveModeRapid 150 10 0 5, mkPos moveModeLinear 150 10 0 5,
          mkPos moveModeLinear 100 10 0 (-1), mkPos moveModeLinear 100 10 0 (-1)])"
  by (simp add: route_eval upt_rec Let_def)

lemma feedExample_ascending:
  "OptRouteGrouping (mkMachine (feedExample 100 150))
     = (Some AmbiguousFeedrate, mkMachine (feedExample 100 150))"
  by (simp add: route_eval)

















text \<open>
  Claim C2: two distinct positive feedrates among the downward Linear moves make
  \<^verbatim>\<open>OptRouteGrouping\<close> fail with the ambiguous-feedrate error, in whatever order they
  appear. The code compares with \<open>>\<close>: with 150 before 100 the second feedrate is not
  greater than the recorded one, no panic is raised, the pass succeeds and rewrites the
  stack; with 100 before 150 the pass fails and leaves the stack as it was.
\<close>

theorem feedrate_order:
  "OptRouteGrouping (mkMachine (feedExample 150 100)) = (None, mkMachine feedRouted)
   \<and> feedRouted \<noteq> feedExample 150 100
   \<and> OptRouteGrouping (mkMachine (feedExample 100 150))
       = (Some AmbiguousFeedrate, mkMachine (feedExample 100 150))"
proof -
  have "length feedRouted \<noteq> length (feedExample 150 100)"
    by (simp add: feedRouted_def feedExample_def)
  then have "feedRouted \<noteq> feedExample 150 100" by auto
  then show ?thesis
    using feedExample_descending feedExample_ascending by (simp add: feedRouted_def)
qed

text \<open>
  Claim C3: whenever \<^verbatim>\<open>OptRouteGrouping\<close> or \<^verbatim>\<open>SetSafetyHeight\<close> returns an error, the
  machine is as it was before the call. On success \<^verbatim>\<open>OptRouteGrouping\<close> commits the whole
  reconstruction, over every group of the partition, and \<^verbatim>\<open>SetSafetyHeight\<close> commits the
  stack with every index rewritten by its rule.
\<close>

theorem failed_pass_leaves_stack:
  "(fst (OptRouteGrouping vm) \<noteq> None \<longrightarrow> snd (OptRouteGrouping vm) = vm)
   \<and> (fst (SetSafetyHeight height vm) \<noteq> None \<longrightarrow> snd (SetSafetyHeight height vm) = vm)
   \<and> (fst (OptRouteGrouping vm) = None \<longrightarrow>
        tolerance (snd (OptRouteGrouping vm)) = tolerance vm
        \<and> (\<exists>sortedSets ts.
              mset sortedSets = mset (groupsOf (posStack vm))
              \<and> length ts = length sortedSets
              \<and> posStack (snd (OptRouteGrouping vm))
                  = hd (posStack vm) # concat (map (\<lambda>(t, g). t @ tl g) (zip ts sortedSets))))
   \<and> (fst (SetSafetyHeight height vm) = None \<longrightarrow>
        tolerance (snd (SetSafetyHeight height vm)) = tolerance vm
        \<and> posStack (snd (SetSafetyHeight height vm))
            = applyHeight height (fst (heightLoop (0, 0) (posStack vm))) 0 0 (posStack vm)
        \<and> length (posStack (snd (SetSafetyHeight height vm))) = length (posStack vm))"
proof -
  have 1: "fst (OptRouteGrouping vm) \<noteq> None \<longrightarrow> snd (OptRouteGrouping vm) = vm"
    by (simp add: OptRouteGrouping_def split: sum.splits)
  have 2: "fst (SetSafetyHeight height vm) \<noteq> None \<longrightarrow> snd (SetSafetyHeight height vm) = vm"
    by (simp add: SetSafetyHeight_def split: prod.splits)
  have 3: "fst (OptRouteGrouping vm) = None \<longrightarrow>
        tolerance (snd (OptRouteGrouping vm)) = tolerance vm
        \<and> (\<exists>sortedSets ts.
              mset sortedSets = mset (groupsOf (posStack vm))
              \<and> length ts = length sortedSets
              \<and> posStack (snd (OptRouteGrouping vm))
                  = hd (posStack vm) # concat (map (\<lambda>(t, g). t @ tl g) (zip ts sortedSets)))"
  proof
    assume "fst (OptRouteGrouping vm) = None"
    then obtain np where np: "routeGrouping vm = Inr np"
      and r: "OptRouteGrouping vm = (None, vm\<lparr>posStack := np\<rparr>)"
      by (auto simp: OptRouteGrouping_def split: sum.splits)
    from routeGrouping_shape [OF np] obtain sortedSets ts where
      "mset sortedSets = mset (groupsOf (posStack vm))" "length ts = length sortedSets"
      "np = hd (posStack vm) # concat (map (\<lambda>(t, g). t @ tl g) (zip ts sortedSets))"
      by blast
    then have "\<exists>sortedSets ts.
              mset sortedSets = mset (groupsOf (posStack vm))
              \<and> length ts = length sortedSets
              \<and> np = hd (posStack vm) # concat (map (\<lambda>(t, g). t @ tl g) (zip ts sortedSets))"
      by blast
    then show "tolerance (snd (OptRouteGrouping vm)) = tolerance vm
        \<and> (\<exists>sortedSets ts.
              mset sortedSets = mset (groupsOf (posStack vm))
              \<and> length ts = length sortedSets
              \<and> posStack (snd (OptRouteGrouping vm))
                  = hd (posStack vm) # concat (map (\<lambda>(t, g). t @ tl g) (zip ts sortedSets)))"
      by (simp add: r)
  qed
  have 4: "fst (SetSafetyHeight height vm) = None \<longrightarrow>
        tolerance (snd (SetSafetyHeight height vm)) = tolerance vm
        \<and> posStack (snd (SetSafetyHeight height vm))
            = applyHeight height (fst (heightLoop (0, 0) (posStack vm))) 0 0 (posStack vm)
        \<and> length (posStack (snd (SetSafetyHeight height vm))) = length (posStack vm)"
    by (simp add: SetSafetyHeight_def length_applyHeight split: prod.splits)
  show ?thesis using 1 2 3 4 by blast
qed

theorem failed_pass_leaves_stack_witness:
  "fst (OptRouteGrouping (mkMachine (feedExample 100 150))) = Some AmbiguousFeedrate
   \<and> snd (OptRouteGrouping (mkMachine (feedExample 100 150))) = mkMachine (feedExample 100 150)
   \<and> fst (SetSafetyHeight 0 (mkMachine (feedExample 100 150))) = Some (SafetyHeightConflict 0)
   \<and> snd (SetSafetyHeight 0 (mkMachine (feedExample 100 150))) = mkMachine (feedExample 100 150)"
proof -
  have a: "fst (OptRouteGrouping (mkMachine (feedExample 100 150))) = Some AmbiguousFeedrate"
    by (simp add: feedExample_ascending)
  have b: "fst (SetSafetyHeight 0 (mkMachine (feedExample 100 150)))
             = Some (SafetyHeightConflict 0)"
    by (simp add: SetSafetyHeight_def heightStep_def feedExample_def mkMachine_def mkPos_def)
  from a b failed_pass_leaves_stack [of "mkMachine (feedExample 100 150)" 0]
  show ?thesis by simp
qed

end
